theory Spec2Isabelle
  imports Complex_Main "HOL-Library.AList" "HOL-Library.Char_ord" "HOL-Library.List_Lexorder"
begin

section \<open>Data model (models.py)\<close>

text \<open>
  \<^verbatim>\<open>RewriteRule\<close> is the dataclass of models.py. A Python dict is an association list in
  insertion order; \<^verbatim>\<open>d[k] = v\<close> is \<open>AList.update\<close> (the value is replaced in place, a new
  key goes to the end), \<^verbatim>\<open>d[k]\<close> is \<open>map_of d k\<close> (\<open>None\<close> is KeyError) and
  \<^verbatim>\<open>not d\<close> is \<open>d = []\<close>.
\<close>

record RewriteRule =
  domain :: string
  answer :: string
  enabled :: bool

type_synonym rules = "(string \<times> RewriteRule) list"

text \<open>
  \<^verbatim>\<open>set(d.keys())\<close>: a Python set is a duplicate-free list here; the order in which Python
  iterates over a set is not specified, the list order stands for it, and no theorem below
  depends on it. \<^verbatim>\<open>a - b\<close> and \<^verbatim>\<open>a & b\<close> are filters, \<^verbatim>\<open>len\<close> is \<open>length\<close>.
\<close>

definition dict_keys :: "('k \<times> 'v) list \<Rightarrow> 'k list" where
  "dict_keys d = remdups (map fst d)"

definition set_diff :: "'a list \<Rightarrow> 'a list \<Rightarrow> 'a list" where
  "set_diff a b = filter (\<lambda>x. x \<notin> set b) a"

definition set_inter :: "'a list \<Rightarrow> 'a list \<Rightarrow> 'a list" where
  "set_inter a b = filter (\<lambda>x. x \<in> set b) a"

text \<open>
  A JSON record of a rule, as the provider's list and the database file hold it: either
  not a JSON object at all, or an object whose keys \<^verbatim>\<open>domain\<close>, \<^verbatim>\<open>answer\<close>, \<^verbatim>\<open>enabled\<close> are
  each absent (\<open>None\<close>) or present with a value of the type the dataclass annotates.
\<close>

datatype rule_data = NotDict | RuleData "string option" "string option" "bool option"

section \<open>The provider's HTTP interface, as adguard\_client.py uses it\<close>

text \<open>
  \<^verbatim>\<open>session.get\<close> and \<^verbatim>\<open>session.post\<close> are the only contact with the provider. The network
  is a script of the replies the provider will give, consumed one per request; a request
  made after the script has run out raises (connection error). Every behaviour of a
  provider during one run is such a script.
\<close>

datatype operation = add | delete | update

datatype payload =
    RuleJson string string bool
  | DeleteJson string string
  | UpdateJson string string string

datatype http_result = Response nat | RequestException

datatype body = InvalidJson | NotList | JsonList "rule_data list"

datatype get_result = GetResponse nat body | GetException

record network =
  get_replies :: "get_result list"
  post_replies :: "http_result list"

datatype event = HttpGet | HttpPost operation payload | Sleep nat

definition session_get :: "network \<Rightarrow> get_result \<times> network" where
  "session_get n =
     (case get_replies n of
        [] \<Rightarrow> (GetException, n)
      | r # rs \<Rightarrow> (r, n\<lparr>get_replies := rs\<rparr>))"

definition session_post :: "network \<Rightarrow> http_result \<times> network" where
  "session_post n =
     (case post_replies n of
        [] \<Rightarrow> (RequestException, n)
      | r # rs \<Rightarrow> (r, n\<lparr>post_replies := rs\<rparr>))"

section \<open>AdGuardHomeClientV2 (adguard\_client.py)\<close>

text \<open>
  Python floats are IEEE 754 binary64 numbers. A float is given here by its value, a
  rational; \<open>round_double\<close> rounds a rational to 53 significant bits, ties to even, which
  is what \<^verbatim>\<open>float("0.8")\<close>, the conversion of an int and the product of two floats do to
  the exact result. The range of the exponent is not modelled (no overflow, no subnormal
  numbers): the numbers at hand are lengths of sets and thresholds between 0.1 and 1.
  Comparing an int with a float compares the two values exactly.
\<close>

function bit_length :: "int \<Rightarrow> nat" where
  "bit_length n = (if n \<le> 0 then 0 else Suc (bit_length (n div 2)))"
  by pat_completeness auto
termination
  by (relation "measure nat") auto

declare bit_length.simps [simp del]

definition pow2 :: "int \<Rightarrow> rat" where
  "pow2 e = (if 0 \<le> e then 2 ^ nat e else 1 / 2 ^ nat (- e))"

text \<open>The exponent \<open>e\<close> with \<open>2 ^ e \<le> x < 2 ^ (e + 1)\<close>, for a positive \<open>x\<close>.\<close>

definition binade :: "rat \<Rightarrow> int" where
  "binade x =
     (let d = int (bit_length (fst (quotient_of x))) - int (bit_length (snd (quotient_of x)))
      in if pow2 d \<le> x then d else d - 1)"

definition round_half_even :: "rat \<Rightarrow> int" where
  "round_half_even x =
     (let f = \<lfloor>x\<rfloor>; r = x - of_int f
      in if r < 1 / 2 then f else if 1 / 2 < r then f + 1 else if even f then f else f + 1)"

definition round_double :: "rat \<Rightarrow> rat" where
  "round_double x =
     (if x = 0 then 0
      else if x < 0
      then - (of_int (round_half_even (- x * pow2 (52 - binade (- x)))) * pow2 (binade (- x) - 52))
      else of_int (round_half_even (x * pow2 (52 - binade x))) * pow2 (binade x - 52))"

definition float :: "rat \<Rightarrow> rat" where
  "float x = round_double x"

definition float_of_nat :: "nat \<Rightarrow> rat" where
  "float_of_nat n = round_double (of_nat n)"

definition float_mul :: "rat \<Rightarrow> rat \<Rightarrow> rat" where
  "float_mul a b = round_double (a * b)"

text \<open>
  The configuration the constructor reads from the environment. The safety threshold is
  the float that \<^verbatim>\<open>float(os.getenv(...))\<close> yields: \<open>float (4 / 5)\<close> for the default
  \<^verbatim>\<open>'0.8'\<close>.
\<close>

record AdGuardHomeClientV2 =
  max_retries :: nat
  retry_delay :: nat
  request_timeout :: nat
  safety_threshold :: rat

definition validate_configuration :: "AdGuardHomeClientV2 \<Rightarrow> bool" where
  "validate_configuration c \<longleftrightarrow>
     \<not> (max_retries c < 1 \<or> max_retries c > 10) \<and>
     \<not> (retry_delay c < 1 \<or> retry_delay c > 60) \<and>
     \<not> (request_timeout c < 1 \<or> request_timeout c > 300) \<and>
     \<not> (safety_threshold c < float (1 / 10) \<or> safety_threshold c > 1)"

text \<open>\<^verbatim>\<open>get_rewrite_rules\<close>: every failure, and every unexpected body, yields the empty dict.\<close>

fun remote_rule :: "rule_data \<Rightarrow> rules \<Rightarrow> rules" where
  "remote_rule (RuleData (Some d) (Some a) e) rs =
     AList.update d \<lparr>domain = d, answer = a,
                      enabled = (case e of None \<Rightarrow> True | Some b \<Rightarrow> b)\<rparr> rs"
| "remote_rule _ rs = rs"

definition get_rewrite_rules :: "network \<Rightarrow> rules \<times> network \<times> event list" where
  "get_rewrite_rules n =
     (case session_get n of
        (GetException, n1) \<Rightarrow> ([], n1, [HttpGet])
      | (GetResponse code b, n1) \<Rightarrow>
          (if code \<noteq> 200 then ([], n1, [HttpGet])
           else case b of
                  InvalidJson \<Rightarrow> ([], n1, [HttpGet])
                | NotList \<Rightarrow> ([], n1, [HttpGet])
                | JsonList data \<Rightarrow> (fold remote_rule data [], n1, [HttpGet])))"

text \<open>
  \<^verbatim>\<open>_make_rule_request\<close>: the loop over \<^verbatim>\<open>range(self.max_retries)\<close>. Each attempt posts; status
  200 returns True at once; any other status and any exception is logged, and the loop
  sleeps \<^verbatim>\<open>self.retry_delay\<close> unless this was the last attempt. After the loop: False.
\<close>

definition retry_pause :: "AdGuardHomeClientV2 \<Rightarrow> nat \<Rightarrow> event list" where
  "retry_pause c attempt = (if attempt < max_retries c - 1 then [Sleep (retry_delay c)] else [])"

fun rule_request_attempts ::
  "AdGuardHomeClientV2 \<Rightarrow> operation \<Rightarrow> payload \<Rightarrow> nat list \<Rightarrow> network \<Rightarrow> bool \<times> network \<times> event list"
where
  "rule_request_attempts c opn pl [] n = (False, n, [])"
| "rule_request_attempts c opn pl (attempt # rest) n =
     (case session_post n of
        (Response code, n1) \<Rightarrow>
          (if code = 200 then (True, n1, [HttpPost opn pl])
           else (case rule_request_attempts c opn pl rest n1 of
                   (ok, n2, tr) \<Rightarrow> (ok, n2, HttpPost opn pl # retry_pause c attempt @ tr)))
      | (RequestException, n1) \<Rightarrow>
          (case rule_request_attempts c opn pl rest n1 of
             (ok, n2, tr) \<Rightarrow> (ok, n2, HttpPost opn pl # retry_pause c attempt @ tr)))"

definition make_rule_request ::
  "AdGuardHomeClientV2 \<Rightarrow> operation \<Rightarrow> payload \<Rightarrow> network \<Rightarrow> bool \<times> network \<times> event list"
where
  "make_rule_request c opn pl n = rule_request_attempts c opn pl [0..<max_retries c] n"

definition add_rewrite_rule ::
  "AdGuardHomeClientV2 \<Rightarrow> RewriteRule \<Rightarrow> network \<Rightarrow> bool \<times> network \<times> event list"
where
  "add_rewrite_rule c rule n =
     make_rule_request c add (RuleJson (domain rule) (answer rule) (enabled rule)) n"

text \<open>
  \<^verbatim>\<open>delete_rewrite_rule\<close> and \<^verbatim>\<open>update_rewrite_rule\<close> take the current rules as an optional
  argument and fetch them when it is None.
\<close>

definition current_or_fetch :: "rules option \<Rightarrow> network \<Rightarrow> rules \<times> network \<times> event list" where
  "current_or_fetch current_rules n =
     (case current_rules of None \<Rightarrow> get_rewrite_rules n | Some cur \<Rightarrow> (cur, n, []))"

definition delete_rewrite_rule ::
  "AdGuardHomeClientV2 \<Rightarrow> string \<Rightarrow> rules option \<Rightarrow> network \<Rightarrow> bool \<times> network \<times> event list"
where
  "delete_rewrite_rule c d current_rules n =
     (case current_or_fetch current_rules n of
        (cur, n1, tr1) \<Rightarrow>
          (case map_of cur d of
             None \<Rightarrow> (True, n1, tr1)
           | Some rule \<Rightarrow>
               (case make_rule_request c delete (DeleteJson d (answer rule)) n1 of
                  (ok, n2, tr2) \<Rightarrow> (ok, n2, tr1 @ tr2))))"

definition update_rewrite_rule ::
  "AdGuardHomeClientV2 \<Rightarrow> RewriteRule \<Rightarrow> rules option \<Rightarrow> network \<Rightarrow> bool \<times> network \<times> event list"
where
  "update_rewrite_rule c rule current_rules n =
     (case current_or_fetch current_rules n of
        (cur, n1, tr1) \<Rightarrow>
          (case map_of cur (domain rule) of
             None \<Rightarrow>
               (case add_rewrite_rule c rule n1 of (ok, n2, tr2) \<Rightarrow> (ok, n2, tr1 @ tr2))
           | Some old_rule \<Rightarrow>
               (case make_rule_request c update
                       (UpdateJson (domain rule) (answer old_rule) (answer rule)) n1 of
                  (ok, n2, tr2) \<Rightarrow> (ok, n2, tr1 @ tr2))))"

text \<open>
  The three loops of \<^verbatim>\<open>sync_rules\<close>. The first component of a result is False when a dict
  lookup raised KeyError, which the \<^verbatim>\<open>except Exception\<close> of \<^verbatim>\<open>sync_rules\<close> turns into the
  return value False; the result of the single call only feeds the counters and the log,
  which are left out.
\<close>

fun add_new_rules ::
  "AdGuardHomeClientV2 \<Rightarrow> rules \<Rightarrow> string list \<Rightarrow> network \<Rightarrow> bool \<times> network \<times> event list"
where
  "add_new_rules c target_rules [] n = (True, n, [])"
| "add_new_rules c target_rules (d # ds) n =
     (case map_of target_rules d of
        None \<Rightarrow> (False, n, [])
      | Some rule \<Rightarrow>
          (case add_rewrite_rule c rule n of
             (ok, n1, tr1) \<Rightarrow>
               (case add_new_rules c target_rules ds n1 of
                  (fin, n2, tr2) \<Rightarrow> (fin, n2, tr1 @ tr2))))"

fun update_existing_rules ::
  "AdGuardHomeClientV2 \<Rightarrow> rules \<Rightarrow> rules \<Rightarrow> string list \<Rightarrow> network \<Rightarrow> bool \<times> network \<times> event list"
where
  "update_existing_rules c target_rules current_rules [] n = (True, n, [])"
| "update_existing_rules c target_rules current_rules (d # ds) n =
     (case map_of target_rules d of
        None \<Rightarrow> (False, n, [])
      | Some rule \<Rightarrow>
          (case map_of current_rules d of
             None \<Rightarrow> (False, n, [])
           | Some current_rule \<Rightarrow>
               (if answer current_rule \<noteq> answer rule \<or> enabled current_rule \<noteq> enabled rule
                then (case update_rewrite_rule c rule (Some current_rules) n of
                        (ok, n1, tr1) \<Rightarrow>
                          (case update_existing_rules c target_rules current_rules ds n1 of
                             (fin, n2, tr2) \<Rightarrow> (fin, n2, tr1 @ tr2)))
                else update_existing_rules c target_rules current_rules ds n)))"

fun delete_obsolete_rules ::
  "AdGuardHomeClientV2 \<Rightarrow> rules \<Rightarrow> string list \<Rightarrow> network \<Rightarrow> bool \<times> network \<times> event list"
where
  "delete_obsolete_rules c current_rules [] n = (True, n, [])"
| "delete_obsolete_rules c current_rules (d # ds) n =
     (case delete_rewrite_rule c d (Some current_rules) n of
        (ok, n1, tr1) \<Rightarrow>
          (case delete_obsolete_rules c current_rules ds n1 of
             (fin, n2, tr2) \<Rightarrow> (fin, n2, tr1 @ tr2)))"

text \<open>
  The sets \<^verbatim>\<open>sync_rules\<close> computes, and its safety check
  \<^verbatim>\<open>len(to_delete) > len(app_managed_domains) * self.safety_threshold\<close>: the product is
  the product of floats, rounded.
\<close>

definition app_managed_domains :: "rules option \<Rightarrow> string list" where
  "app_managed_domains managed_rules =
     (case managed_rules of Some m \<Rightarrow> dict_keys m | None \<Rightarrow> [])"

definition to_add_or_update :: "rules \<Rightarrow> rules \<Rightarrow> string list" where
  "to_add_or_update target_rules current_rules =
     set_diff (dict_keys target_rules) (dict_keys current_rules)"

definition to_update :: "rules \<Rightarrow> rules \<Rightarrow> string list" where
  "to_update target_rules current_rules =
     set_inter (dict_keys current_rules) (dict_keys target_rules)"

definition to_delete :: "rules \<Rightarrow> rules option \<Rightarrow> string list" where
  "to_delete target_rules managed_rules =
     set_diff (app_managed_domains managed_rules) (dict_keys target_rules)"

definition safety_check_failed :: "AdGuardHomeClientV2 \<Rightarrow> rules \<Rightarrow> rules option \<Rightarrow> bool" where
  "safety_check_failed c target_rules managed_rules \<longleftrightarrow>
     of_nat (length (to_delete target_rules managed_rules))
       > float_mul (float_of_nat (length (app_managed_domains managed_rules)))
                   (safety_threshold c)"

definition apply_plan ::
  "AdGuardHomeClientV2 \<Rightarrow> rules \<Rightarrow> rules option \<Rightarrow> rules \<Rightarrow> network \<Rightarrow> bool \<times> network \<times> event list"
where
  "apply_plan c target_rules managed_rules current_rules n =
     (case add_new_rules c target_rules (to_add_or_update target_rules current_rules) n of
        (ok1, n1, tr1) \<Rightarrow>
          if \<not> ok1 then (False, n1, tr1)
          else (case update_existing_rules c target_rules current_rules
                       (to_update target_rules current_rules) n1 of
                  (ok2, n2, tr2) \<Rightarrow>
                    if \<not> ok2 then (False, n2, tr1 @ tr2)
                    else (case delete_obsolete_rules c current_rules
                                 (to_delete target_rules managed_rules) n2 of
                            (ok3, n3, tr3) \<Rightarrow> (ok3, n3, tr1 @ tr2 @ tr3))))"

definition sync_rules ::
  "AdGuardHomeClientV2 \<Rightarrow> rules \<Rightarrow> rules option \<Rightarrow> network \<Rightarrow> bool \<times> network \<times> event list"
where
  "sync_rules c target_rules managed_rules n =
     (case get_rewrite_rules n of
        (current_rules, n0, tr0) \<Rightarrow>
          if current_rules = [] then (False, n0, tr0)
          else if safety_check_failed c target_rules managed_rules then (False, n0, tr0)
          else (case apply_plan c target_rules managed_rules current_rules n0 of
                  (ok, n1, tr1) \<Rightarrow> (ok, n1, tr0 @ tr1)))"

text \<open>The calls a trace holds, by operation: the domain each request names.\<close>

fun payload_domain :: "payload \<Rightarrow> string" where
  "payload_domain (RuleJson d a e) = d"
| "payload_domain (DeleteJson d a) = d"
| "payload_domain (UpdateJson d old new) = d"

fun is_post :: "event \<Rightarrow> bool" where
  "is_post (HttpPost opn pl) = True"
| "is_post _ = False"

fun posted :: "operation \<Rightarrow> event list \<Rightarrow> string list" where
  "posted opn [] = []"
| "posted opn (HttpPost opn' pl # tr) =
     (if opn' = opn then payload_domain pl # posted opn tr else posted opn tr)"
| "posted opn (_ # tr) = posted opn tr"

fun sleeps :: "event list \<Rightarrow> nat list" where
  "sleeps [] = []"
| "sleeps (Sleep s # tr) = s # sleeps tr"
| "sleeps (_ # tr) = sleeps tr"

section \<open>RuleDatabase (database.py)\<close>

text \<open>
  The files of the data directory, by path. What a file holds is what \<^verbatim>\<open>json.loads\<close> makes
  of its text: nothing (the text does not parse, as after a truncation), a JSON value
  that is not an object, or an object, given by its items in order. The journal lists the
  operations that changed the directory, oldest first. Faults of the disk itself and the
  lock of the class are not modelled.
\<close>

datatype file_content = Unparseable | NonDict | Dict "(string \<times> rule_data) list"

datatype fs_op = Copy string string | Move string string | Remove string | Write string

record store =
  files :: "(string \<times> file_content) list"
  journal :: "fs_op list"

datatype error = JSONDecodeError | KeyError | ValueError | FileNotFoundError

record RuleDatabase =
  db_file :: string
  max_backups :: nat

definition backup_file :: "RuleDatabase \<Rightarrow> string" where
  "backup_file db = db_file db @ ''.backup''"

definition path_exists :: "store \<Rightarrow> string \<Rightarrow> bool" where
  "path_exists st p \<longleftrightarrow> map_of (files st) p \<noteq> None"

text \<open>
  \<^verbatim>\<open>shutil.copy2\<close>, \<^verbatim>\<open>shutil.move\<close>, \<^verbatim>\<open>os.remove\<close> and writing a file. Copying or moving a file
  that does not exist raises (\<open>None\<close>).
\<close>

definition copy2 :: "string \<Rightarrow> string \<Rightarrow> store \<Rightarrow> store option" where
  "copy2 src dst st =
     (case map_of (files st) src of
        None \<Rightarrow> None
      | Some content \<Rightarrow>
          Some (st\<lparr>files := AList.update dst content (files st),
                   journal := journal st @ [Copy src dst]\<rparr>))"

definition move :: "string \<Rightarrow> string \<Rightarrow> store \<Rightarrow> store option" where
  "move src dst st =
     (case map_of (files st) src of
        None \<Rightarrow> None
      | Some content \<Rightarrow>
          Some (st\<lparr>files := AList.update dst content (AList.delete src (files st)),
                   journal := journal st @ [Move src dst]\<rparr>))"

definition remove :: "string \<Rightarrow> store \<Rightarrow> store option" where
  "remove p st =
     (if path_exists st p
      then Some (st\<lparr>files := AList.delete p (files st), journal := journal st @ [Remove p]\<rparr>)
      else None)"

definition write_file :: "string \<Rightarrow> file_content \<Rightarrow> store \<Rightarrow> store" where
  "write_file p content st =
     st\<lparr>files := AList.update p content (files st), journal := journal st @ [Write p]\<rparr>"

text \<open>
  \<^verbatim>\<open>_cleanup_corrupted_file\<close>; \<open>now\<close> is the text of \<^verbatim>\<open>int(time.time())\<close>. A failure of the
  move is caught and logged.
\<close>

definition cleanup_corrupted_file :: "string \<Rightarrow> string \<Rightarrow> store \<Rightarrow> store" where
  "cleanup_corrupted_file now file_path st =
     (if path_exists st file_path
      then (case move file_path (file_path @ ''.corrupted.'' @ now) st of
              None \<Rightarrow> st
            | Some st' \<Rightarrow> st')
      else st)"

text \<open>
  \<^verbatim>\<open>_load_from_file\<close>: an entry that is not an object, or that lacks one of the keys
  \<^verbatim>\<open>domain\<close>, \<^verbatim>\<open>answer\<close>, \<^verbatim>\<open>enabled\<close>, is skipped; the others are stored under the key of the
  entry.
\<close>

fun stored_rule :: "string \<times> rule_data \<Rightarrow> rules \<Rightarrow> rules" where
  "stored_rule (k, RuleData (Some d) (Some a) (Some e)) rs =
     AList.update k \<lparr>domain = d, answer = a, enabled = e\<rparr> rs"
| "stored_rule _ rs = rs"

definition load_from_file :: "store \<Rightarrow> string \<Rightarrow> error + rules" where
  "load_from_file st file_path =
     (case map_of (files st) file_path of
        None \<Rightarrow> Inl FileNotFoundError
      | Some Unparseable \<Rightarrow> Inl JSONDecodeError
      | Some NonDict \<Rightarrow> Inl ValueError
      | Some (Dict data) \<Rightarrow> Inr (fold stored_rule data []))"

text \<open>The exceptions that \<^verbatim>\<open>except (json.JSONDecodeError, KeyError, ValueError)\<close> catches.\<close>

definition caught :: "error \<Rightarrow> bool" where
  "caught e \<longleftrightarrow> e = JSONDecodeError \<or> e = KeyError \<or> e = ValueError"

text \<open>
  \<^verbatim>\<open>glob.glob(f"{self.db_file}.backup.*")\<close>: the paths that start with the name of the
  database followed by \<^verbatim>\<open>.backup.\<close> and go on within the same directory. This is what the
  pattern means for a database path that holds none of the characters \<^verbatim>\<open>* ? [\<close>, which
  \<^verbatim>\<open>glob\<close> would read as wildcards (\<open>has_magic\<close>); the path of the application holds none.
  \<^verbatim>\<open>sorted(..., reverse=True)\<close> is the descending order of the names.
\<close>

definition has_magic :: "string \<Rightarrow> bool" where
  "has_magic p \<longleftrightarrow> CHR ''*'' \<in> set p \<or> CHR ''?'' \<in> set p \<or> CHR ''['' \<in> set p"

definition backup_pattern :: "RuleDatabase \<Rightarrow> string \<Rightarrow> bool" where
  "backup_pattern db p \<longleftrightarrow>
     take (length (db_file db @ ''.backup.'')) p = db_file db @ ''.backup.'' \<and>
     CHR ''/'' \<notin> set (drop (length (db_file db @ ''.backup.'')) p)"

definition glob_backups :: "RuleDatabase \<Rightarrow> store \<Rightarrow> string list" where
  "glob_backups db st = filter (backup_pattern db) (dict_keys (files st))"

definition backup_files :: "RuleDatabase \<Rightarrow> store \<Rightarrow> string list" where
  "backup_files db st = rev (sort (glob_backups db st))"

text \<open>
  \<^verbatim>\<open>_try_backup_restore\<close>: the loop over the timestamped backups (\<open>None\<close>: the loop ended
  without a return), then the fixed backup file.
\<close>

fun restore_first ::
  "RuleDatabase \<Rightarrow> string list \<Rightarrow> store \<Rightarrow> ((error + rules) \<times> store) option"
where
  "restore_first db [] st = None"
| "restore_first db (b # bs) st =
     (case load_from_file st b of
        Inr rs \<Rightarrow>
          (case copy2 b (db_file db) st of
             None \<Rightarrow> Some (Inl FileNotFoundError, st)
           | Some st' \<Rightarrow> Some (Inr rs, st'))
      | Inl e \<Rightarrow> if caught e then restore_first db bs st else Some (Inl e, st))"

definition try_backup_restore :: "RuleDatabase \<Rightarrow> store \<Rightarrow> (error + rules) \<times> store" where
  "try_backup_restore db st =
     (case restore_first db (backup_files db st) st of
        Some r \<Rightarrow> r
      | None \<Rightarrow>
          if path_exists st (backup_file db)
          then (case load_from_file st (backup_file db) of
                  Inr rs \<Rightarrow>
                    (case copy2 (backup_file db) (db_file db) st of
                       None \<Rightarrow> (Inl FileNotFoundError, st)
                     | Some st' \<Rightarrow> (Inr rs, st'))
                | Inl e \<Rightarrow> if caught e then (Inr [], st) else (Inl e, st))
          else (Inr [], st))"

definition load_managed_rules ::
  "RuleDatabase \<Rightarrow> string \<Rightarrow> store \<Rightarrow> (error + rules) \<times> store"
where
  "load_managed_rules db now st =
     (if path_exists st (db_file db)
      then (case load_from_file st (db_file db) of
              Inr rs \<Rightarrow>
                if rs \<noteq> [] then (Inr rs, st)
                else (Inr [], cleanup_corrupted_file now (db_file db) st)
            | Inl e \<Rightarrow>
                if caught e
                then try_backup_restore db (cleanup_corrupted_file now (db_file db) st)
                else (Inl e, st))
      else if path_exists st (backup_file db)
      then (case load_from_file st (backup_file db) of
              Inr rs \<Rightarrow>
                if rs \<noteq> []
                then (case copy2 (backup_file db) (db_file db) st of
                        None \<Rightarrow> (Inl FileNotFoundError, st)
                      | Some st' \<Rightarrow> (Inr rs, st'))
                else (Inr [], st)
            | Inl e \<Rightarrow>
                if caught e then (Inr [], cleanup_corrupted_file now (backup_file db) st)
                else (Inl e, st))
      else (Inr [], st))"

text \<open>
  \<^verbatim>\<open>_cleanup_old_backups\<close>: every backup after the first \<^verbatim>\<open>max_backups\<close> of the descending
  list is removed; a removal that fails is logged and skipped.
\<close>

definition remove_backup :: "string \<Rightarrow> store \<Rightarrow> store" where
  "remove_backup p st = (case remove p st of None \<Rightarrow> st | Some st' \<Rightarrow> st')"

definition cleanup_old_backups :: "RuleDatabase \<Rightarrow> store \<Rightarrow> store" where
  "cleanup_old_backups db st =
     fold remove_backup (drop (max_backups db) (backup_files db st)) st"

text \<open>
  \<^verbatim>\<open>_create_backup\<close>; \<open>stamp\<close> is \<^verbatim>\<open>datetime.now().strftime("%Y%m%d_%H%M%S")\<close>. An exception
  ends the method with a warning and is not raised again.
\<close>

definition create_backup :: "RuleDatabase \<Rightarrow> string \<Rightarrow> store \<Rightarrow> store" where
  "create_backup db stamp st =
     (case copy2 (db_file db) (db_file db @ ''.backup.'' @ stamp) st of
        None \<Rightarrow> st
      | Some st1 \<Rightarrow>
          (case copy2 (db_file db) (backup_file db) st1 of
             None \<Rightarrow> st1
           | Some st2 \<Rightarrow> cleanup_old_backups db st2))"

text \<open>
  \<^verbatim>\<open>_save_to_file\<close>: \<^verbatim>\<open>os.makedirs(os.path.dirname(file_path), exist_ok=True)\<close> raises for a
  path without a directory part (the directory name is empty then); otherwise the JSON
  object of the rules goes to a temporary file, which is moved over the target.
\<close>

definition rule_entry :: "string \<times> RewriteRule \<Rightarrow> (string \<times> rule_data) list \<Rightarrow> (string \<times> rule_data) list" where
  "rule_entry kr data =
     AList.update (fst kr)
       (RuleData (Some (domain (snd kr))) (Some (answer (snd kr))) (Some (enabled (snd kr)))) data"

definition save_to_file :: "rules \<Rightarrow> string \<Rightarrow> store \<Rightarrow> error option \<times> store" where
  "save_to_file rs file_path st =
     (if CHR ''/'' \<notin> set file_path then (Some FileNotFoundError, st)
      else let data = fold rule_entry rs [];
               temp_file = file_path @ ''.tmp'';
               st1 = write_file temp_file (Dict data) st
           in case move temp_file file_path st1 of
                None \<Rightarrow> (Some FileNotFoundError, st1)
              | Some st2 \<Rightarrow> (None, st2))"

definition save_managed_rules ::
  "RuleDatabase \<Rightarrow> string \<Rightarrow> rules \<Rightarrow> store \<Rightarrow> error option \<times> store"
where
  "save_managed_rules db stamp rs st =
     save_to_file rs (db_file db)
       (if path_exists st (db_file db) then create_backup db stamp st else st)"

section \<open>AdGuardDNSSync (app.py)\<close>

text \<open>
  The application holds the client and a database on the fixed path of
  \<^verbatim>\<open>_setup_database\<close>, with the number of backups the environment gives.
  \<^verbatim>\<open>generate_rules\<close> turns what the cluster watcher found (hostname and address, in the
  order of the dict) into rules. \<^verbatim>\<open>sync_rules\<close> of the application is one reconciliation
  cycle: generate, load the managed rules, synchronise, and save the generated rules when
  the client reports success. Any exception ends the cycle with False.
\<close>

record AdGuardDNSSync =
  adguard :: AdGuardHomeClientV2
  db_max_backups :: nat

definition rule_db_file :: string where
  "rule_db_file = ''/app/data/managed_rules.json''"

definition rule_db :: "AdGuardDNSSync \<Rightarrow> RuleDatabase" where
  "rule_db app = \<lparr>db_file = rule_db_file, max_backups = db_max_backups app\<rparr>"

definition generated_rule :: "string \<times> string \<Rightarrow> rules \<Rightarrow> rules" where
  "generated_rule hi rs =
     AList.update (fst hi) \<lparr>domain = fst hi, answer = snd hi, enabled = True\<rparr> rs"

definition generate_rules :: "(string \<times> string) list \<Rightarrow> rules" where
  "generate_rules dns_resources = fold generated_rule dns_resources []"

definition app_sync_rules ::
  "AdGuardDNSSync \<Rightarrow> string \<Rightarrow> string \<Rightarrow> (string \<times> string) list \<Rightarrow> store \<Rightarrow> network
     \<Rightarrow> bool \<times> store \<times> network \<times> event list"
where
  "app_sync_rules app now stamp dns_resources st n =
     (let new_rules = generate_rules dns_resources
      in case load_managed_rules (rule_db app) now st of
           (Inl e, st1) \<Rightarrow> (False, st1, n, [])
         | (Inr managed_rules, st1) \<Rightarrow>
             (case sync_rules (adguard app) new_rules (Some managed_rules) n of
                (success, n1, tr) \<Rightarrow>
                  if success
                  then (case save_managed_rules (rule_db app) stamp new_rules st1 of
                          (None, st2) \<Rightarrow> (True, st2, n1, tr)
                        | (Some e, st2) \<Rightarrow> (False, st2, n1, tr))
                  else (False, st1, n1, tr)))"

section \<open>Notions the statements use\<close>

text \<open>
  A dict of rules is keyed by domain when every rule is stored under its own domain, as
  the dicts that \<^verbatim>\<open>generate_rules\<close> and \<^verbatim>\<open>get_rewrite_rules\<close> build are. A domain needs an update
  when it is desired and remote and the two rules differ in answer or enabled flag: the
  test in the second loop of \<^verbatim>\<open>sync_rules\<close>.
\<close>

definition keyed_by_domain :: "rules \<Rightarrow> bool" where
  "keyed_by_domain rs \<longleftrightarrow> list_all (\<lambda>kr. domain (snd kr) = fst kr) rs"

definition needs_update :: "rules \<Rightarrow> rules \<Rightarrow> string \<Rightarrow> bool" where
  "needs_update target_rules current_rules d \<longleftrightarrow>
     (case map_of target_rules d of
        None \<Rightarrow> False
      | Some rule \<Rightarrow>
          (case map_of current_rules d of
             None \<Rightarrow> False
           | Some current_rule \<Rightarrow>
               answer current_rule \<noteq> answer rule \<or> enabled current_rule \<noteq> enabled rule))"




text \<open>Consecutive calls of \<^verbatim>\<open>save_managed_rules\<close>, each with its timestamp and its rules.\<close>

definition save_all :: "RuleDatabase \<Rightarrow> (string \<times> rules) list \<Rightarrow> store \<Rightarrow> store" where
  "save_all db saves st = fold (\<lambda>s st'. snd (save_managed_rules db (fst s) (snd s) st')) saves st"

text \<open>
  The name of the backup that a save at \<open>stamp\<close> makes, and the timestamped backups in
  descending order of their names once that backup is there.
\<close>

definition new_backup :: "RuleDatabase \<Rightarrow> string \<Rightarrow> string" where
  "new_backup db stamp = db_file db @ ''.backup.'' @ stamp"

definition generations :: "RuleDatabase \<Rightarrow> string \<Rightarrow> store \<Rightarrow> string list" where
  "generations db stamp st = rev (sort (List.insert (new_backup db stamp) (glob_backups db st)))"

section \<open>What a cycle sends to the provider\<close>

lemma posted_append: "posted opn (a @ b) = posted opn a @ posted opn b"
  by (induction opn a rule: posted.induct) auto

lemma posted_retry_pause: "posted opn (retry_pause c attempt @ tr) = posted opn tr"
  by (simp add: retry_pause_def)

lemma posted_attempts_other:
  "rule_request_attempts c opn pl as n = (ok, n', tr) \<Longrightarrow> opn' \<noteq> opn \<Longrightarrow> posted opn' tr = []"
  by (induction as arbitrary: n ok n' tr)
     (auto simp: posted_retry_pause split: prod.splits http_result.splits if_splits)

lemma posted_attempts_subset:
  "rule_request_attempts c opn pl as n = (ok, n', tr) \<Longrightarrow> set (posted opn tr) \<subseteq> {payload_domain pl}"
proof (induction as arbitrary: n ok n' tr)
  case Nil
  then show ?case by simp
next
  case (Cons a as)
  show ?case
  proof (cases "session_post n")
    case (Pair r n1)
    obtain ok2 n2 tr2 where rest: "rule_request_attempts c opn pl as n1 = (ok2, n2, tr2)"
      by (cases "rule_request_attempts c opn pl as n1") auto
    from Cons.IH [OF rest] have "set (posted opn tr2) \<subseteq> {payload_domain pl}" .
    with Cons.prems Pair rest show ?thesis
      by (cases r) (auto simp: posted_retry_pause split: if_splits)
  qed
qed

lemma posted_attempts_member:
  "rule_request_attempts c opn pl (a # as) n = (ok, n', tr) \<Longrightarrow>
     payload_domain pl \<in> set (posted opn tr)"
  by (auto split: prod.splits http_result.splits if_splits)

lemma posted_make_rule_request_other:
  "make_rule_request c opn pl n = (ok, n', tr) \<Longrightarrow> opn' \<noteq> opn \<Longrightarrow> posted opn' tr = []"
  unfolding make_rule_request_def by (rule posted_attempts_other)

lemma posted_make_rule_request_subset:
  "make_rule_request c opn pl n = (ok, n', tr) \<Longrightarrow> set (posted opn tr) \<subseteq> {payload_domain pl}"
  unfolding make_rule_request_def by (rule posted_attempts_subset)

lemma posted_make_rule_request_member:
  "make_rule_request c opn pl n = (ok, n', tr) \<Longrightarrow> 1 \<le> max_retries c \<Longrightarrow>
     payload_domain pl \<in> set (posted opn tr)"
proof -
  assume run: "make_rule_request c opn pl n = (ok, n', tr)" and "1 \<le> max_retries c"
  then have "[0..<max_retries c] = 0 # [Suc 0..<max_retries c]"
    by (simp add: upt_conv_Cons)
  with run have "rule_request_attempts c opn pl (0 # [Suc 0..<max_retries c]) n = (ok, n', tr)"
    by (simp add: make_rule_request_def)
  then show ?thesis by (rule posted_attempts_member)
qed

lemma posted_add_rewrite_rule_other:
  "add_rewrite_rule c rule n = (ok, n', tr) \<Longrightarrow> opn \<noteq> add \<Longrightarrow> posted opn tr = []"
  unfolding add_rewrite_rule_def by (rule posted_make_rule_request_other)

lemma posted_delete_rewrite_rule:
  "delete_rewrite_rule c d (Some cur) n = (ok, n', tr) \<Longrightarrow>
     set (posted delete tr) \<subseteq> {d} \<inter> fst ` set cur"
proof (cases "map_of cur d")
  case None
  assume "delete_rewrite_rule c d (Some cur) n = (ok, n', tr)"
  with None show ?thesis
    by (simp add: delete_rewrite_rule_def current_or_fetch_def)
next
  case (Some rule)
  assume run: "delete_rewrite_rule c d (Some cur) n = (ok, n', tr)"
  from Some have "d \<in> fst ` set cur"
    by (metis map_of_eq_None_iff option.distinct(1))
  moreover from run Some
  have "make_rule_request c delete (DeleteJson d (answer rule)) n = (ok, n', tr)"
    by (simp add: delete_rewrite_rule_def current_or_fetch_def split: prod.splits)
  then have "set (posted delete tr) \<subseteq> {payload_domain (DeleteJson d (answer rule))}"
    by (rule posted_make_rule_request_subset)
  then have "set (posted delete tr) \<subseteq> {d}" by simp
  ultimately show ?thesis by auto
qed

lemma posted_delete_update_rewrite_rule:
  "update_rewrite_rule c rule (Some cur) n = (ok, n', tr) \<Longrightarrow> posted delete tr = []"
  unfolding update_rewrite_rule_def current_or_fetch_def
  by (auto split: option.splits prod.splits
           dest: posted_make_rule_request_other posted_add_rewrite_rule_other)

lemma posted_delete_add_new_rules:
  "add_new_rules c target ds n = (fin, n', tr) \<Longrightarrow> posted delete tr = []"
proof (induction ds arbitrary: n fin n' tr)
  case Nil
  then show ?case by simp
next
  case (Cons d ds)
  then show ?case
    by (auto simp: posted_append split: option.splits prod.splits
             dest: posted_add_rewrite_rule_other)
qed

lemma posted_delete_update_existing_rules:
  "update_existing_rules c target cur ds n = (fin, n', tr) \<Longrightarrow> posted delete tr = []"
proof (induction ds arbitrary: n fin n' tr)
  case Nil
  then show ?case by simp
next
  case (Cons d ds)
  then show ?case
    by (auto simp: posted_append split: option.splits prod.splits if_splits
             dest: posted_delete_update_rewrite_rule)
qed

lemma posted_delete_obsolete_rules:
  "delete_obsolete_rules c cur ds n = (fin, n', tr) \<Longrightarrow>
     set (posted delete tr) \<subseteq> set ds \<inter> fst ` set cur"
proof (induction ds arbitrary: n fin n' tr)
  case Nil
  then show ?case by simp
next
  case (Cons d ds)
  obtain ok n1 tr1 where one: "delete_rewrite_rule c d (Some cur) n = (ok, n1, tr1)"
    by (cases "delete_rewrite_rule c d (Some cur) n") auto
  obtain fin2 n2 tr2 where rest: "delete_obsolete_rules c cur ds n1 = (fin2, n2, tr2)"
    by (cases "delete_obsolete_rules c cur ds n1") auto
  from Cons.prems one rest have tr: "tr = tr1 @ tr2" by simp
  from posted_delete_rewrite_rule [OF one] Cons.IH [OF rest] show ?case
    unfolding tr posted_append by auto
qed

lemma get_rewrite_rules_trace: "get_rewrite_rules n = (cur, n', tr) \<Longrightarrow> tr = [HttpGet]"
  by (auto simp: get_rewrite_rules_def split: prod.splits get_result.splits if_splits body.splits)

lemma posted_delete_apply_plan:
  assumes "apply_plan c target managed cur n = (ok, n', tr)"
  shows "set (posted delete tr) \<subseteq> set (to_delete target managed) \<inter> fst ` set cur"
proof -
  obtain ok1 n1 tr1 where a: "add_new_rules c target (to_add_or_update target cur) n = (ok1, n1, tr1)"
    by (cases "add_new_rules c target (to_add_or_update target cur) n") auto
  obtain ok2 n2 tr2 where u:
    "update_existing_rules c target cur (to_update target cur) n1 = (ok2, n2, tr2)"
    by (cases "update_existing_rules c target cur (to_update target cur) n1") auto
  obtain ok3 n3 tr3 where d:
    "delete_obsolete_rules c cur (to_delete target managed) n2 = (ok3, n3, tr3)"
    by (cases "delete_obsolete_rules c cur (to_delete target managed) n2") auto
  have p1: "posted delete tr1 = []" using a by (rule posted_delete_add_new_rules)
  have p2: "posted delete tr2 = []" using u by (rule posted_delete_update_existing_rules)
  have p3: "set (posted delete tr3) \<subseteq> set (to_delete target managed) \<inter> fst ` set cur"
    using d by (rule posted_delete_obsolete_rules)
  from assms a u d have "tr = tr1 \<or> tr = tr1 @ tr2 \<or> tr = tr1 @ tr2 @ tr3"
    by (auto simp: apply_plan_def split: if_splits)
  with p1 p2 p3 show ?thesis by (auto simp: posted_append)
qed

lemma posted_delete_sync_rules:
  assumes "sync_rules c target managed n = (ok, n', tr)"
  shows "set (posted delete tr) \<subseteq> set (to_delete target managed)"
proof -
  obtain cur n0 tr0 where g: "get_rewrite_rules n = (cur, n0, tr0)"
    by (cases "get_rewrite_rules n") auto
  then have tr0: "tr0 = [HttpGet]" by (rule get_rewrite_rules_trace)
  obtain ok1 n1 tr1 where p: "apply_plan c target managed cur n0 = (ok1, n1, tr1)"
    by (cases "apply_plan c target managed cur n0") auto
  from assms g p have "tr = tr0 \<or> tr = tr0 @ tr1"
    by (auto simp: sync_rules_def split: if_splits)
  with tr0 posted_delete_apply_plan [OF p] show ?thesis by (auto simp: posted_append)
qed

lemma to_delete_subset:
  "set (to_delete target managed) \<subseteq> set (app_managed_domains managed) - set (dict_keys target)"
  by (auto simp: to_delete_def set_diff_def)

text \<open>
  Claim C1 (ownership invariant). Whatever the desired, remote and managed sets are, and
  whatever the provider answers: the deletion set that \<^verbatim>\<open>sync_rules\<close> computes is a subset of
  the managed keys, it shares no domain with the remote rules that are not managed, and
  every delete request that the cycle sends names a managed domain that is no longer
  desired; so a remote rule that was never managed is never passed to the delete
  operation, desired or not.
\<close>

theorem ownership_invariant:
  "set (to_delete target_rules managed_rules) \<subseteq> set (app_managed_domains managed_rules) \<and>
   set (to_delete target_rules managed_rules)
     \<inter> (set (dict_keys current_rules) - set (app_managed_domains managed_rules)) = {} \<and>
   set (posted delete (snd (snd (sync_rules c target_rules managed_rules n))))
     \<subseteq> set (app_managed_domains managed_rules) - set (dict_keys target_rules)"
proof -
  obtain ok n' tr where run: "sync_rules c target_rules managed_rules n = (ok, n', tr)"
    by (cases "sync_rules c target_rules managed_rules n") auto
  from posted_delete_sync_rules [OF run] to_delete_subset [of target_rules managed_rules] run
  show ?thesis by auto
qed

theorem ownership_invariant_witness:
  "set (posted delete (snd (snd (sync_rules
      \<lparr>max_retries = 3, retry_delay = 2, request_timeout = 10, safety_threshold = 4 / 5\<rparr>
      [(''x'', \<lparr>domain = ''x'', answer = ''1'', enabled = True\<rparr>)]
      (Some [(''x'', \<lparr>domain = ''x'', answer = ''1'', enabled = True\<rparr>),
             (''z'', \<lparr>domain = ''z'', answer = ''3'', enabled = True\<rparr>)])
      \<lparr>get_replies = [GetResponse 200 (JsonList
           [RuleData (Some ''x'') (Some ''1'') None, RuleData (Some ''z'') (Some ''3'') None,
            RuleData (Some ''w'') (Some ''4'') None])],
        post_replies = [Response 200]\<rparr>))))
     \<subseteq> set (app_managed_domains
           (Some [(''x'', \<lparr>domain = ''x'', answer = ''1'', enabled = True\<rparr>),
                  (''z'', \<lparr>domain = ''z'', answer = ''3'', enabled = True\<rparr>)]))
         - set (dict_keys [(''x'', \<lparr>domain = ''x'', answer = ''1'', enabled = True\<rparr>)]) \<and>
   posted delete (snd (snd (sync_rules
      \<lparr>max_retries = 3, retry_delay = 2, request_timeout = 10, safety_threshold = 4 / 5\<rparr>
      [(''x'', \<lparr>domain = ''x'', answer = ''1'', enabled = True\<rparr>)]
      (Some [(''x'', \<lparr>domain = ''x'', answer = ''1'', enabled = True\<rparr>),
             (''z'', \<lparr>domain = ''z'', answer = ''3'', enabled = True\<rparr>)])
      \<lparr>get_replies = [GetResponse 200 (JsonList
           [RuleData (Some ''x'') (Some ''1'') None, RuleData (Some ''z'') (Some ''3'') None,
            RuleData (Some ''w'') (Some ''4'') None])],
        post_replies = [Response 200]\<rparr>))) = [''z'']"
  (is "?A \<and> ?B")
proof
  show ?A by (rule ownership_invariant [THEN conjunct2, THEN conjunct2])
  show ?B by code_simp
qed

lemma load_from_file_caught:
  "load_from_file st p = Inl e \<Longrightarrow> path_exists st p \<Longrightarrow> caught e"
  by (auto simp: load_from_file_def path_exists_def caught_def
           split: option.splits file_content.splits)

lemma load_from_file_exists: "load_from_file st p = Inr rs \<Longrightarrow> path_exists st p"
  by (auto simp: load_from_file_def path_exists_def split: option.splits file_content.splits)

lemma copy2_exists: "path_exists st src \<Longrightarrow> \<exists>st'. copy2 src dst st = Some st'"
  by (auto simp: copy2_def path_exists_def)

lemma set_backup_files: "set (backup_files db st) \<subseteq> fst ` set (files st)"
  by (auto simp: backup_files_def glob_backups_def dict_keys_def)

lemma path_exists_iff: "path_exists st p \<longleftrightarrow> p \<in> fst ` set (files st)"
  by (simp add: path_exists_def map_of_eq_None_iff)

lemma restore_first_no_error:
  "restore_first db bs st = Some (r, st') \<Longrightarrow> \<forall>b \<in> set bs. path_exists st b \<Longrightarrow> \<exists>rs. r = Inr rs"
proof (induction bs)
  case Nil
  then show ?case by simp
next
  case (Cons b bs)
  show ?case
  proof (cases "load_from_file st b")
    case (Inl e)
    with Cons.prems have "caught e" by (auto dest: load_from_file_caught)
    with Inl Cons show ?thesis by simp
  next
    case (Inr rs)
    then obtain st2 where "copy2 b (db_file db) st = Some st2"
      using copy2_exists load_from_file_exists by blast
    with Inr Cons.prems have "r = Inr rs" by simp
    then show ?thesis by blast
  qed
qed

lemma try_backup_restore_no_error: "\<exists>rs. fst (try_backup_restore db st) = Inr rs"
proof (cases "restore_first db (backup_files db st) st")
  case None
  show ?thesis
  proof (cases "path_exists st (backup_file db)")
    case False
    with None show ?thesis by (simp add: try_backup_restore_def)
  next
    case True
    show ?thesis
    proof (cases "load_from_file st (backup_file db)")
      case (Inl e)
      with True have "caught e" by (auto dest: load_from_file_caught)
      with None True Inl show ?thesis by (simp add: try_backup_restore_def)
    next
      case (Inr rs)
      from True obtain st2 where "copy2 (backup_file db) (db_file db) st = Some st2"
        using copy2_exists by blast
      with None True Inr show ?thesis by (simp add: try_backup_restore_def)
    qed
  qed
next
  case (Some a)
  obtain r st' where a: "a = (r, st')" by (cases a)
  have "\<forall>b \<in> set (backup_files db st). path_exists st b"
    using set_backup_files [of db st] by (auto simp: path_exists_iff)
  with Some a obtain rs where "r = Inr rs" using restore_first_no_error by blast
  with Some a show ?thesis by (simp add: try_backup_restore_def)
qed

lemma load_managed_rules_no_error: "\<exists>rs. fst (load_managed_rules db now st) = Inr rs"
proof (cases "path_exists st (db_file db)")
  case True
  show ?thesis
  proof (cases "load_from_file st (db_file db)")
    case (Inl e)
    with True have "caught e" by (auto dest: load_from_file_caught)
    with True Inl show ?thesis
      using try_backup_restore_no_error by (simp add: load_managed_rules_def)
  next
    case (Inr rs)
    with True show ?thesis by (simp add: load_managed_rules_def)
  qed
next
  case False
  show ?thesis
  proof (cases "path_exists st (backup_file db)")
    case no: False
    with False show ?thesis by (simp add: load_managed_rules_def)
  next
    case yes: True
    show ?thesis
    proof (cases "load_from_file st (backup_file db)")
      case (Inl e)
      with yes have "caught e" by (auto dest: load_from_file_caught)
      with False yes Inl show ?thesis by (simp add: load_managed_rules_def)
    next
      case (Inr rs)
      from yes obtain st2 where "copy2 (backup_file db) (db_file db) st = Some st2"
        using copy2_exists by blast
      with False yes Inr show ?thesis by (simp add: load_managed_rules_def)
    qed
  qed
qed

text \<open>
  Claim C10. When the primary file exists and parses as a JSON object that yields no valid
  rule (an empty object, as a saved empty managed set is), \<^verbatim>\<open>load_managed_rules\<close> returns
  the empty dict and moves the primary file to the name with the suffix
  \<^verbatim>\<open>.corrupted.<time>\<close>; that move is the only change of the directory, so no backup is
  read or restored, whatever backups there are.
\<close>

theorem empty_primary_is_quarantined:
  assumes "map_of (files st) (db_file db) = Some (Dict data)"
      and "fold stored_rule data [] = []"
  shows "load_managed_rules db now st =
     (Inr [],
      st\<lparr>files := AList.update (db_file db @ ''.corrupted.'' @ now) (Dict data)
                     (AList.delete (db_file db) (files st)),
         journal := journal st @ [Move (db_file db) (db_file db @ ''.corrupted.'' @ now)]\<rparr>)"
  using assms
  by (simp add: load_managed_rules_def path_exists_def load_from_file_def
                cleanup_corrupted_file_def move_def)

theorem empty_primary_is_quarantined_witness:
  "load_managed_rules \<lparr>db_file = ''d/m'', max_backups = 5\<rparr> ''99''
     \<lparr>files = [(''d/m'', Dict []),
               (''d/m.backup.t1'', Dict [(''b'', RuleData (Some ''b'') (Some ''2'') (Some True))])],
      journal = []\<rparr>
   = (Inr [],
      \<lparr>files = [(''d/m.backup.t1'', Dict [(''b'', RuleData (Some ''b'') (Some ''2'') (Some True))]),
                (''d/m.corrupted.99'', Dict [])],
       journal = [Move ''d/m'' ''d/m.corrupted.99'']\<rparr>)"
  using empty_primary_is_quarantined
          [of "\<lparr>files = [(''d/m'', Dict []),
               (''d/m.backup.t1'', Dict [(''b'', RuleData (Some ''b'') (Some ''2'') (Some True))])],
               journal = []\<rparr>"
              "\<lparr>db_file = ''d/m'', max_backups = 5\<rparr>" "[]" "''99''"]
  by simp

lemma get_rewrite_rules_session:
  "get_rewrite_rules n = (cur, n0, tr) \<Longrightarrow> n0 = snd (session_get n) \<and> tr = [HttpGet]"
  by (auto simp: get_rewrite_rules_def split: prod.splits get_result.splits if_splits body.splits)

lemma sync_rules_abort:
  assumes "fst (get_rewrite_rules n) = [] \<or> safety_check_failed c target managed"
  shows "sync_rules c target managed n = (False, snd (session_get n), [HttpGet])"
proof -
  obtain cur n0 tr where g: "get_rewrite_rules n = (cur, n0, tr)"
    by (cases "get_rewrite_rules n") auto
  then have "n0 = snd (session_get n)" "tr = [HttpGet]"
    by (auto dest: get_rewrite_rules_session)
  with assms g show ?thesis by (auto simp: sync_rules_def)
qed

lemma sync_rules_proceeds:
  assumes "get_rewrite_rules n = (cur, n0, tr0)" and "cur \<noteq> []"
      and "\<not> safety_check_failed c target managed"
  shows "sync_rules c target managed n =
           (case apply_plan c target managed cur n0 of (ok, n1, tr) \<Rightarrow> (ok, n1, HttpGet # tr))"
proof -
  from assms(1) have "tr0 = [HttpGet]" by (rule get_rewrite_rules_trace)
  with assms show ?thesis by (simp add: sync_rules_def split: prod.splits)
qed

lemma get_rewrite_rules_failed:
  assumes "session_get n = (reply, n0)"
      and "reply = GetException \<or>
           (\<exists>code b. reply = GetResponse code b \<and>
              (code \<noteq> 200 \<or> b = InvalidJson \<or> b = NotList \<or>
               (\<exists>data. b = JsonList data \<and> fold remote_rule data [] = [])))"
  shows "get_rewrite_rules n = ([], n0, [HttpGet])"
  using assms by (auto simp: get_rewrite_rules_def)

lemma app_sync_rules_abort:
  assumes "sync_rules (adguard app) (generate_rules dns)
             (Some (projr (fst (load_managed_rules (rule_db app) now st)))) n = (False, n0, tr)"
  shows "app_sync_rules app now stamp dns st n =
           (False, snd (load_managed_rules (rule_db app) now st), n0, tr)"
proof -
  obtain rs where "fst (load_managed_rules (rule_db app) now st) = Inr rs"
    using load_managed_rules_no_error by blast
  then obtain st1 where l: "load_managed_rules (rule_db app) now st = (Inr rs, st1)"
    by (cases "load_managed_rules (rule_db app) now st") auto
  with assms show ?thesis by (simp add: app_sync_rules_def)
qed

text \<open>
  When the list request raises, or is answered with a status other than 200, or with a
  body that is not JSON, not a list, or a list that holds no valid rule, the client's
  \<^verbatim>\<open>sync_rules\<close> returns False having sent the list request only, and the application saves
  nothing.
\<close>

lemma list_failure_aborts:
  assumes "session_get n = (reply, n0)"
      and "reply = GetException \<or>
           (\<exists>code b. reply = GetResponse code b \<and>
              (code \<noteq> 200 \<or> b = InvalidJson \<or> b = NotList \<or>
               (\<exists>data. b = JsonList data \<and> fold remote_rule data [] = [])))"
  shows "sync_rules c target managed n = (False, n0, [HttpGet]) \<and>
         app_sync_rules app now stamp dns st n =
           (False, snd (load_managed_rules (rule_db app) now st), n0, [HttpGet])"
proof -
  from assms have g: "get_rewrite_rules n = ([], n0, [HttpGet])"
    by (rule get_rewrite_rules_failed)
  then have e: "fst (get_rewrite_rules n) = []" by simp
  from assms(1) have n0: "snd (session_get n) = n0" by simp
  have a: "\<And>c target managed. sync_rules c target managed n = (False, n0, [HttpGet])"
    using sync_rules_abort [of n] e n0 by simp
  from a app_sync_rules_abort [OF a] show ?thesis by simp
qed

text \<open>
  Claim C3. A transport error on the list request aborts the cycle, as the claim says
  (\<open>list_failure_aborts\<close>); but so does a list request that succeeds with an empty list.
  For a provider that holds no rule and answers 200 with \<^verbatim>\<open>[]\<close>, and one desired rule y,
  \<^verbatim>\<open>sync_rules\<close> returns False after the list request: y is not created, although the
  provider would have accepted it.
\<close>

theorem empty_list_aborts_cycle:
  "sync_rules
     \<lparr>max_retries = 3, retry_delay = 2, request_timeout = 10, safety_threshold = float (4 / 5)\<rparr>
     [(''y'', \<lparr>domain = ''y'', answer = ''10.0.0.2'', enabled = True\<rparr>)] (Some [])
     \<lparr>get_replies = [GetResponse 200 (JsonList [])], post_replies = [Response 200]\<rparr>
   = (False, \<lparr>get_replies = [], post_replies = [Response 200]\<rparr>, [HttpGet])"
  by code_simp

lemma float_mul_zero: "float_mul (float_of_nat 0) t = 0"
  by (simp add: float_mul_def float_of_nat_def round_double_def)

text \<open>
  Claim C2, as amended. When the managed set is not empty and the deletion set is larger
  than the product of the size of the managed set and the threshold, as the code computes
  that product (in floats, rounded), the client's \<^verbatim>\<open>sync_rules\<close> returns False having sent
  the list request only, and the cycle of the application returns False and saves nothing:
  the store is as loading the managed set left it, and unchanged when the managed set came
  from the primary file. When the managed set is empty the deletion set is empty, the check
  does not fail, and with a non-empty remote list the plan is applied.
\<close>

theorem safety_guard_aborts:
  "(app_managed_domains managed \<noteq> [] \<and>
      of_nat (length (to_delete target managed))
        > float_mul (float_of_nat (length (app_managed_domains managed))) (safety_threshold c)
    \<longrightarrow> sync_rules c target managed n = (False, snd (session_get n), [HttpGet])) \<and>
   (load_managed_rules (rule_db app) now st = (Inr m, st1) \<and> m \<noteq> [] \<and>
      of_nat (length (to_delete (generate_rules dns) (Some m)))
        > float_mul (float_of_nat (length (dict_keys m))) (safety_threshold (adguard app))
    \<longrightarrow> app_sync_rules app now stamp dns st n = (False, st1, snd (session_get n), [HttpGet]) \<and>
        (load_from_file st (db_file (rule_db app)) = Inr m \<longrightarrow> st1 = st)) \<and>
   (app_managed_domains managed = []
    \<longrightarrow> to_delete target managed = [] \<and> \<not> safety_check_failed c target managed \<and>
        (fst (get_rewrite_rules n) \<noteq> [] \<longrightarrow>
           sync_rules c target managed n =
             (case apply_plan c target managed (fst (get_rewrite_rules n)) (snd (session_get n)) of
                (ok, n1, tr) \<Rightarrow> (ok, n1, HttpGet # tr))))"
  (is "?A \<and> ?B \<and> ?C")
proof (intro conjI)
  show ?A
    by (auto simp: safety_check_failed_def intro!: sync_rules_abort)
next
  show ?B
  proof (intro impI, elim conjE)
    assume l: "load_managed_rules (rule_db app) now st = (Inr m, st1)" and ne: "m \<noteq> []"
      and g: "of_nat (length (to_delete (generate_rules dns) (Some m)))
                > float_mul (float_of_nat (length (dict_keys m))) (safety_threshold (adguard app))"
    then have "safety_check_failed (adguard app) (generate_rules dns) (Some m)"
      by (simp add: safety_check_failed_def app_managed_domains_def)
    then have "sync_rules (adguard app) (generate_rules dns) (Some m) n
                 = (False, snd (session_get n), [HttpGet])"
      by (simp add: sync_rules_abort)
    with l have a: "app_sync_rules app now stamp dns st n
                      = (False, st1, snd (session_get n), [HttpGet])"
      by (simp add: app_sync_rules_def)
    have "st1 = st" if f: "load_from_file st (db_file (rule_db app)) = Inr m"
    proof -
      from f have "path_exists st (db_file (rule_db app))" by (rule load_from_file_exists)
      with f ne l show ?thesis by (simp add: load_managed_rules_def)
    qed
    with a show "app_sync_rules app now stamp dns st n = (False, st1, snd (session_get n), [HttpGet]) \<and>
        (load_from_file st (db_file (rule_db app)) = Inr m \<longrightarrow> st1 = st)" by simp
  qed
next
  show ?C
  proof (intro impI)
    assume e: "app_managed_domains managed = []"
    then have d: "to_delete target managed = []" by (simp add: to_delete_def set_diff_def)
    with e have s: "\<not> safety_check_failed c target managed"
      by (simp add: safety_check_failed_def float_mul_zero)
    have "sync_rules c target managed n =
             (case apply_plan c target managed (fst (get_rewrite_rules n)) (snd (session_get n)) of
                (ok, n1, tr) \<Rightarrow> (ok, n1, HttpGet # tr))"
      if ne: "fst (get_rewrite_rules n) \<noteq> []"
    proof -
      obtain cur n0 tr0 where g: "get_rewrite_rules n = (cur, n0, tr0)"
        by (cases "get_rewrite_rules n") auto
      with ne have "cur \<noteq> []" by simp
      from sync_rules_proceeds [OF g this s] g get_rewrite_rules_session [OF g]
      show ?thesis by simp
    qed
    with d s show "to_delete target managed = [] \<and> \<not> safety_check_failed c target managed \<and>
        (fst (get_rewrite_rules n) \<noteq> [] \<longrightarrow>
           sync_rules c target managed n =
             (case apply_plan c target managed (fst (get_rewrite_rules n)) (snd (session_get n)) of
                (ok, n1, tr) \<Rightarrow> (ok, n1, HttpGet # tr)))" by simp
  qed
qed

theorem safety_guard_aborts_witness:
  "length (to_delete (generate_rules [(''0'', ''a'')])
      (Some [(''0'', \<lparr>domain = ''0'', answer = ''a'', enabled = True\<rparr>), (''1'',
            \<lparr>domain = ''1'', answer = ''a'', enabled = True\<rparr>), (''2'', \<lparr>domain =
            ''2'', answer = ''a'', enabled = True\<rparr>), (''3'', \<lparr>domain = ''3'', answer =
            ''a'', enabled = True\<rparr>), (''4'', \<lparr>domain = ''4'', answer = ''a'', enabled =
            True\<rparr>), (''5'', \<lparr>domain = ''5'', answer = ''a'', enabled = True\<rparr>),
            (''6'', \<lparr>domain = ''6'', answer = ''a'', enabled = True\<rparr>), (''7'',
            \<lparr>domain = ''7'', answer = ''a'', enabled = True\<rparr>), (''8'', \<lparr>domain =
            ''8'', answer = ''a'', enabled = True\<rparr>), (''9'', \<lparr>domain = ''9'', answer =
            ''a'', enabled = True\<rparr>)])) = 9 \<and>
   app_sync_rules
     \<lparr>adguard = \<lparr>max_retries = 3, retry_delay = 2, request_timeout = 10,
     safety_threshold = float (4 / 5)\<rparr>, db_max_backups = 5\<rparr>
     ''99'' ''20240101_000000'' [(''0'', ''a'')]
     \<lparr>files = [(rule_db_file, Dict [(''0'', RuleData (Some ''0'') (Some ''a'') (Some
      True)), (''1'', RuleData (Some ''1'') (Some ''a'') (Some True)), (''2'', RuleData (Some
      ''2'') (Some ''a'') (Some True)), (''3'', RuleData (Some ''3'') (Some ''a'') (Some True)),
      (''4'', RuleData (Some ''4'') (Some ''a'') (Some True)), (''5'', RuleData (Some ''5'') (Some
      ''a'') (Some True)), (''6'', RuleData (Some ''6'') (Some ''a'') (Some True)), (''7'',
      RuleData (Some ''7'') (Some ''a'') (Some True)), (''8'', RuleData (Some ''8'') (Some ''a'')
      (Some True)), (''9'', RuleData (Some ''9'') (Some ''a'') (Some True))])], journal =
      []\<rparr>
     \<lparr>get_replies = [GetResponse 200 (JsonList [RuleData (Some ''0'') (Some ''a'')
      None])], post_replies = [Response 200]\<rparr>
   = (False,
      \<lparr>files = [(rule_db_file, Dict [(''0'', RuleData (Some ''0'') (Some ''a'') (Some
      True)), (''1'', RuleData (Some ''1'') (Some ''a'') (Some True)), (''2'', RuleData (Some
      ''2'') (Some ''a'') (Some True)), (''3'', RuleData (Some ''3'') (Some ''a'') (Some True)),
      (''4'', RuleData (Some ''4'') (Some ''a'') (Some True)), (''5'', RuleData (Some ''5'') (Some
      ''a'') (Some True)), (''6'', RuleData (Some ''6'') (Some ''a'') (Some True)), (''7'',
      RuleData (Some ''7'') (Some ''a'') (Some True)), (''8'', RuleData (Some ''8'') (Some ''a'')
      (Some True)), (''9'', RuleData (Some ''9'') (Some ''a'') (Some True))])], journal =
      []\<rparr>,
      \<lparr>get_replies = [], post_replies = [Response 200]\<rparr>, [HttpGet])"
  (is "?D \<and> app_sync_rules ?app ?now ?stamp ?dns ?st ?n = ?r")
proof -
  let ?m = "[(''0'', \<lparr>domain = ''0'', answer = ''a'', enabled = True\<rparr>), (''1'',
            \<lparr>domain = ''1'', answer = ''a'', enabled = True\<rparr>), (''2'', \<lparr>domain =
            ''2'', answer = ''a'', enabled = True\<rparr>), (''3'', \<lparr>domain = ''3'', answer =
            ''a'', enabled = True\<rparr>), (''4'', \<lparr>domain = ''4'', answer = ''a'', enabled =
            True\<rparr>), (''5'', \<lparr>domain = ''5'', answer = ''a'', enabled = True\<rparr>),
            (''6'', \<lparr>domain = ''6'', answer = ''a'', enabled = True\<rparr>), (''7'',
            \<lparr>domain = ''7'', answer = ''a'', enabled = True\<rparr>), (''8'', \<lparr>domain =
            ''8'', answer = ''a'', enabled = True\<rparr>), (''9'', \<lparr>domain = ''9'', answer =
            ''a'', enabled = True\<rparr>)]"
  have d: ?D by code_simp
  have l: "load_managed_rules (rule_db ?app) ?now ?st = (Inr ?m, ?st)" by code_simp
  have ne: "?m \<noteq> []" by simp
  have g: "of_nat (length (to_delete (generate_rules ?dns) (Some ?m)))
             > float_mul (float_of_nat (length (dict_keys ?m))) (safety_threshold (adguard ?app))"
    by code_simp
  have s: "snd (session_get ?n) = \<lparr>get_replies = [], post_replies = [Response 200]\<rparr>"
    by (simp add: session_get_def)
  from safety_guard_aborts [THEN conjunct2, THEN conjunct1, THEN mp, OF conjI [OF l conjI [OF ne g]],
         THEN conjunct1, of ?stamp ?n]
  have "app_sync_rules ?app ?now ?stamp ?dns ?st ?n = (False, ?st, snd (session_get ?n), [HttpGet])" .
  with s d show ?thesis by simp
qed

text \<open>
  Two cycles that the claim, as it is written, gets wrong. With the threshold 0.7, ten
  managed rules and seven of them to delete, seven exceeds the exact product of the
  threshold's value and ten, but the product of floats is 7.0, the check passes and the
  seven deletions are sent. And an aborted cycle leaves the store as loading left it, which
  is not always unchanged: with an unreadable primary file and a backup of ten rules,
  loading moves the primary file away and restores the backup before the safety check
  aborts the cycle.
\<close>

theorem safety_guard_counterexample:
  "app_managed_domains (Some [(''0'', \<lparr>domain = ''0'', answer = ''a'', enabled = True\<rparr>), (''1'',
            \<lparr>domain = ''1'', answer = ''a'', enabled = True\<rparr>), (''2'', \<lparr>domain =
            ''2'', answer = ''a'', enabled = True\<rparr>), (''3'', \<lparr>domain = ''3'', answer =
            ''a'', enabled = True\<rparr>), (''4'', \<lparr>domain = ''4'', answer = ''a'', enabled =
            True\<rparr>), (''5'', \<lparr>domain = ''5'', answer = ''a'', enabled = True\<rparr>),
            (''6'', \<lparr>domain = ''6'', answer = ''a'', enabled = True\<rparr>), (''7'',
            \<lparr>domain = ''7'', answer = ''a'', enabled = True\<rparr>), (''8'', \<lparr>domain =
            ''8'', answer = ''a'', enabled = True\<rparr>), (''9'', \<lparr>domain = ''9'', answer =
            ''a'', enabled = True\<rparr>)]) \<noteq> [] \<and>
   of_nat (length (to_delete [(''0'', \<lparr>domain = ''0'', answer = ''a'', enabled = True\<rparr>), (''1'',
            \<lparr>domain = ''1'', answer = ''a'', enabled = True\<rparr>), (''2'', \<lparr>domain =
            ''2'', answer = ''a'', enabled = True\<rparr>)]
      (Some [(''0'', \<lparr>domain = ''0'', answer = ''a'', enabled = True\<rparr>), (''1'',
            \<lparr>domain = ''1'', answer = ''a'', enabled = True\<rparr>), (''2'', \<lparr>domain =
            ''2'', answer = ''a'', enabled = True\<rparr>), (''3'', \<lparr>domain = ''3'', answer =
            ''a'', enabled = True\<rparr>), (''4'', \<lparr>domain = ''4'', answer = ''a'', enabled =
            True\<rparr>), (''5'', \<lparr>domain = ''5'', answer = ''a'', enabled = True\<rparr>),
            (''6'', \<lparr>domain = ''6'', answer = ''a'', enabled = True\<rparr>), (''7'',
            \<lparr>domain = ''7'', answer = ''a'', enabled = True\<rparr>), (''8'', \<lparr>domain =
            ''8'', answer = ''a'', enabled = True\<rparr>), (''9'', \<lparr>domain = ''9'', answer =
            ''a'', enabled = True\<rparr>)])))
     > safety_threshold \<lparr>max_retries = 3, retry_delay = 2, request_timeout = 10, safety_threshold = float (7 / 10)\<rparr>
       * of_nat (length (app_managed_domains (Some [(''0'', \<lparr>domain = ''0'', answer = ''a'', enabled = True\<rparr>), (''1'',
            \<lparr>domain = ''1'', answer = ''a'', enabled = True\<rparr>), (''2'', \<lparr>domain =
            ''2'', answer = ''a'', enabled = True\<rparr>), (''3'', \<lparr>domain = ''3'', answer =
            ''a'', enabled = True\<rparr>), (''4'', \<lparr>domain = ''4'', answer = ''a'', enabled =
            True\<rparr>), (''5'', \<lparr>domain = ''5'', answer = ''a'', enabled = True\<rparr>),
            (''6'', \<lparr>domain = ''6'', answer = ''a'', enabled = True\<rparr>), (''7'',
            \<lparr>domain = ''7'', answer = ''a'', enabled = True\<rparr>), (''8'', \<lparr>domain =
            ''8'', answer = ''a'', enabled = True\<rparr>), (''9'', \<lparr>domain = ''9'', answer =
            ''a'', enabled = True\<rparr>)]))) \<and>
   posted delete (snd (snd (sync_rules
     \<lparr>max_retries = 3, retry_delay = 2, request_timeout = 10, safety_threshold = float (7 / 10)\<rparr>
     [(''0'', \<lparr>domain = ''0'', answer = ''a'', enabled = True\<rparr>), (''1'',
     \<lparr>domain = ''1'', answer = ''a'', enabled = True\<rparr>), (''2'', \<lparr>domain =
     ''2'', answer = ''a'', enabled = True\<rparr>)]
     (Some [(''0'', \<lparr>domain = ''0'', answer = ''a'', enabled = True\<rparr>), (''1'',
           \<lparr>domain = ''1'', answer = ''a'', enabled = True\<rparr>), (''2'', \<lparr>domain =
           ''2'', answer = ''a'', enabled = True\<rparr>), (''3'', \<lparr>domain = ''3'', answer =
           ''a'', enabled = True\<rparr>), (''4'', \<lparr>domain = ''4'', answer = ''a'', enabled =
           True\<rparr>), (''5'', \<lparr>domain = ''5'', answer = ''a'', enabled = True\<rparr>),
           (''6'', \<lparr>domain = ''6'', answer = ''a'', enabled = True\<rparr>), (''7'',
           \<lparr>domain = ''7'', answer = ''a'', enabled = True\<rparr>), (''8'', \<lparr>domain =
           ''8'', answer = ''a'', enabled = True\<rparr>), (''9'', \<lparr>domain = ''9'', answer =
           ''a'', enabled = True\<rparr>)])
     \<lparr>get_replies = [GetResponse 200 (JsonList [RuleData (Some ''0'') (Some ''a'') None,
     RuleData (Some ''1'') (Some ''a'') None, RuleData (Some ''2'') (Some ''a'') None, RuleData
     (Some ''3'') (Some ''a'') None, RuleData (Some ''4'') (Some ''a'') None, RuleData (Some
     ''5'') (Some ''a'') None, RuleData (Some ''6'') (Some ''a'') None, RuleData (Some ''7'')
     (Some ''a'') None, RuleData (Some ''8'') (Some ''a'') None, RuleData (Some ''9'') (Some
     ''a'') None])], post_replies = [Response 200, Response 200, Response 200, Response 200,
     Response 200, Response 200, Response 200]\<rparr>)))
   = [''3'', ''4'', ''5'', ''6'', ''7'', ''8'', ''9''] \<and>
   app_sync_rules
     \<lparr>adguard = \<lparr>max_retries = 3, retry_delay = 2, request_timeout = 10,
     safety_threshold = float (4 / 5)\<rparr>, db_max_backups = 5\<rparr>
     ''99'' ''20240101_000000'' [(''0'', ''a'')]
     \<lparr>files = [(rule_db_file, Unparseable), (rule_db_file @ ''.backup'', Dict [(''0'',
      RuleData (Some ''0'') (Some ''a'') (Some True)), (''1'', RuleData (Some ''1'') (Some ''a'')
      (Some True)), (''2'', RuleData (Some ''2'') (Some ''a'') (Some True)), (''3'', RuleData
      (Some ''3'') (Some ''a'') (Some True)), (''4'', RuleData (Some ''4'') (Some ''a'') (Some
      True)), (''5'', RuleData (Some ''5'') (Some ''a'') (Some True)), (''6'', RuleData (Some
      ''6'') (Some ''a'') (Some True)), (''7'', RuleData (Some ''7'') (Some ''a'') (Some True)),
      (''8'', RuleData (Some ''8'') (Some ''a'') (Some True)), (''9'', RuleData (Some ''9'') (Some
      ''a'') (Some True))])], journal = []\<rparr>
     \<lparr>get_replies = [GetResponse 200 (JsonList [RuleData (Some ''0'') (Some ''a'')
      None])], post_replies = [Response 200]\<rparr>
   = (False,
      \<lparr>files = [(rule_db_file @ ''.backup'', Dict [(''0'', RuleData (Some ''0'') (Some ''a'') (Some True)), (''1'', RuleData (Some ''1'')
        (Some ''a'') (Some True)), (''2'', RuleData (Some ''2'') (Some ''a'') (Some True)), (''3'',
        RuleData (Some ''3'') (Some ''a'') (Some True)), (''4'', RuleData (Some ''4'') (Some ''a'')
        (Some True)), (''5'', RuleData (Some ''5'') (Some ''a'') (Some True)), (''6'', RuleData
        (Some ''6'') (Some ''a'') (Some True)), (''7'', RuleData (Some ''7'') (Some ''a'') (Some
        True)), (''8'', RuleData (Some ''8'') (Some ''a'') (Some True)), (''9'', RuleData (Some
        ''9'') (Some ''a'') (Some True))]),
         (rule_db_file @ ''.corrupted.99'', Unparseable),
         (rule_db_file, Dict [(''0'', RuleData (Some ''0'') (Some ''a'') (Some True)), (''1'', RuleData (Some ''1'')
        (Some ''a'') (Some True)), (''2'', RuleData (Some ''2'') (Some ''a'') (Some True)), (''3'',
        RuleData (Some ''3'') (Some ''a'') (Some True)), (''4'', RuleData (Some ''4'') (Some ''a'')
        (Some True)), (''5'', RuleData (Some ''5'') (Some ''a'') (Some True)), (''6'', RuleData
        (Some ''6'') (Some ''a'') (Some True)), (''7'', RuleData (Some ''7'') (Some ''a'') (Some
        True)), (''8'', RuleData (Some ''8'') (Some ''a'') (Some True)), (''9'', RuleData (Some
        ''9'') (Some ''a'') (Some True))])],
       journal = [Move rule_db_file (rule_db_file @ ''.corrupted.99''),
                  Copy (rule_db_file @ ''.backup'') rule_db_file]\<rparr>,
      \<lparr>get_replies = [], post_replies = [Response 200]\<rparr>, [HttpGet])"
  by code_simp

section \<open>Retries of a single request\<close>

lemma sleeps_append: "sleeps (a @ b) = sleeps a @ sleeps b"
  by (induction a rule: sleeps.induct) auto

lemma sleeps_retry_pause: "set (sleeps (retry_pause c attempt)) \<subseteq> {retry_delay c}"
  by (simp add: retry_pause_def)

lemma rule_request_attempts_bounded:
  "rule_request_attempts c opn pl as n = (ok, n', tr) \<Longrightarrow>
     length (filter is_post tr) \<le> length as \<and> set (sleeps tr) \<subseteq> {retry_delay c}"
proof (induction as arbitrary: n ok n' tr)
  case Nil
  then show ?case by simp
next
  case (Cons a as)
  obtain r n1 where p: "session_post n = (r, n1)" by (cases "session_post n")
  obtain ok2 n2 tr2 where rest: "rule_request_attempts c opn pl as n1 = (ok2, n2, tr2)"
    by (cases "rule_request_attempts c opn pl as n1") auto
  from Cons.IH [OF rest]
  have ih: "length (filter is_post tr2) \<le> length as" "set (sleeps tr2) \<subseteq> {retry_delay c}"
    by auto
  have f: "filter is_post (retry_pause c a) = []" by (simp add: retry_pause_def)
  from Cons.prems p rest
  have "tr = [HttpPost opn pl] \<or> tr = HttpPost opn pl # retry_pause c a @ tr2"
    by (cases r) (auto split: if_splits)
  with ih f sleeps_retry_pause [of c a] show ?case
    by (auto simp: sleeps_append)
qed

lemma make_rule_request_bounded:
  "make_rule_request c opn pl n = (ok, n', tr) \<Longrightarrow>
     length (filter is_post tr) \<le> max_retries c \<and> set (sleeps tr) \<subseteq> {retry_delay c}"
  unfolding make_rule_request_def by (drule rule_request_attempts_bounded) simp

text \<open>
  Claim C8. A mutation call makes at most \<^verbatim>\<open>max_retries\<close> attempts and returns False when all
  have failed, and the loops of \<^verbatim>\<open>sync_rules\<close> go on after a failed item; but the delay between
  consecutive attempts does not increase: \<^verbatim>\<open>_make_rule_request\<close> sleeps \<^verbatim>\<open>retry_delay\<close> each
  time, where \<^verbatim>\<open>_authenticate\<close> sleeps \<^verbatim>\<open>retry_delay * (attempt + 1)\<close>. With the default
  configuration and a provider that answers 500 three times, the call posts three times,
  sleeps 2 and 2 seconds, and returns False.
\<close>

theorem rule_request_delay_is_constant:
  "make_rule_request
     \<lparr>max_retries = 3, retry_delay = 2, request_timeout = 10, safety_threshold = 4 / 5\<rparr>
     add (RuleJson ''y'' ''10.0.0.2'' True)
     \<lparr>get_replies = [], post_replies = [Response 500, Response 500, Response 500]\<rparr>
   = (False, \<lparr>get_replies = [], post_replies = []\<rparr>,
      [HttpPost add (RuleJson ''y'' ''10.0.0.2'' True), Sleep 2,
       HttpPost add (RuleJson ''y'' ''10.0.0.2'' True), Sleep 2,
       HttpPost add (RuleJson ''y'' ''10.0.0.2'' True)])"
  by code_simp

section \<open>The plan and the requests of a cycle that is not aborted\<close>

lemma set_dict_keys: "set (dict_keys d) = fst ` set d"
  by (simp add: dict_keys_def)

lemma in_dict_keys_map_of: "k \<in> set (dict_keys d) \<Longrightarrow> \<exists>v. map_of d k = Some v"
  by (metis set_dict_keys map_of_eq_None_iff not_Some_eq)

lemma keyed_by_domain_lookup: "keyed_by_domain rs \<Longrightarrow> map_of rs d = Some r \<Longrightarrow> domain r = d"
  by (auto simp: keyed_by_domain_def list_all_iff dest!: map_of_SomeD)

lemma posted_add_rewrite_rule:
  assumes "add_rewrite_rule c rule n = (ok, n', tr)" and "1 \<le> max_retries c"
  shows "set (posted add tr) = {domain rule}"
proof -
  from assms(1)
  have m: "make_rule_request c add (RuleJson (domain rule) (answer rule) (enabled rule)) n = (ok, n', tr)"
    by (simp add: add_rewrite_rule_def)
  from posted_make_rule_request_subset [OF m] posted_make_rule_request_member [OF m assms(2)]
  show ?thesis by auto
qed

lemma posted_update_rewrite_rule:
  assumes "update_rewrite_rule c rule (Some cur) n = (ok, n', tr)"
      and "map_of cur (domain rule) = Some old" and "1 \<le> max_retries c"
  shows "set (posted update tr) = {domain rule} \<and> posted add tr = []"
proof -
  from assms(1,2)
  have m: "make_rule_request c update (UpdateJson (domain rule) (answer old) (answer rule)) n
             = (ok, n', tr)"
    by (simp add: update_rewrite_rule_def current_or_fetch_def split: prod.splits)
  from posted_make_rule_request_subset [OF m] posted_make_rule_request_member [OF m assms(3)]
       posted_make_rule_request_other [OF m, of add]
  show ?thesis by auto
qed

lemma posted_other_delete_rewrite_rule:
  assumes "delete_rewrite_rule c d (Some cur) n = (ok, n', tr)" and "opn \<noteq> delete"
  shows "posted opn tr = []"
proof (cases "map_of cur d")
  case None
  with assms show ?thesis by (simp add: delete_rewrite_rule_def current_or_fetch_def)
next
  case (Some rule)
  with assms(1) have "make_rule_request c delete (DeleteJson d (answer rule)) n = (ok, n', tr)"
    by (simp add: delete_rewrite_rule_def current_or_fetch_def split: prod.splits)
  from posted_make_rule_request_other [OF this assms(2)] show ?thesis .
qed

lemma add_new_rules_posts:
  assumes "add_new_rules c target ds n = (fin, n', tr)"
      and "set ds \<subseteq> set (dict_keys target)" and "keyed_by_domain target" and "1 \<le> max_retries c"
  shows "fin \<and> set (posted add tr) = set ds \<and> posted update tr = []"
  using assms(1,2)
proof (induction ds arbitrary: n fin n' tr)
  case Nil
  then show ?case by simp
next
  case (Cons d ds)
  from Cons.prems(2) obtain rule where r: "map_of target d = Some rule"
    using in_dict_keys_map_of by fastforce
  with assms(3) have dom: "domain rule = d" by (rule keyed_by_domain_lookup)
  obtain ok n1 tr1 where one: "add_rewrite_rule c rule n = (ok, n1, tr1)"
    by (cases "add_rewrite_rule c rule n") auto
  obtain fin2 n2 tr2 where rest: "add_new_rules c target ds n1 = (fin2, n2, tr2)"
    by (cases "add_new_rules c target ds n1") auto
  from Cons.prems(1) r one rest have eq: "fin = fin2" "tr = tr1 @ tr2" by simp_all
  from Cons.prems(2) have "set ds \<subseteq> set (dict_keys target)" by simp
  from Cons.IH [OF rest this]
  have ih: "fin2" "set (posted add tr2) = set ds" "posted update tr2 = []" by simp_all
  from posted_add_rewrite_rule [OF one assms(4)] posted_add_rewrite_rule_other [OF one, of update]
       ih eq dom
  show ?case by (simp add: posted_append)
qed

lemma update_existing_rules_posts:
  assumes "update_existing_rules c target cur ds n = (fin, n', tr)"
      and "set ds \<subseteq> set (dict_keys target) \<inter> set (dict_keys cur)"
      and "keyed_by_domain target" and "1 \<le> max_retries c"
  shows "fin \<and> posted add tr = [] \<and>
         set (posted update tr) = {d \<in> set ds. needs_update target cur d}"
  using assms(1,2)
proof (induction ds arbitrary: n fin n' tr)
  case Nil
  then show ?case by simp
next
  case (Cons d ds)
  from Cons.prems(2) obtain rule where r: "map_of target d = Some rule"
    using in_dict_keys_map_of by fastforce
  from Cons.prems(2) obtain old where o: "map_of cur d = Some old"
    using in_dict_keys_map_of by fastforce
  from assms(3) r have dom: "domain rule = d" by (rule keyed_by_domain_lookup)
  from Cons.prems(2) have sub: "set ds \<subseteq> set (dict_keys target) \<inter> set (dict_keys cur)" by simp
  show ?case
  proof (cases "answer old \<noteq> answer rule \<or> enabled old \<noteq> enabled rule")
    case True
    then have nu: "needs_update target cur d" using r o by (simp add: needs_update_def)
    obtain ok n1 tr1 where one: "update_rewrite_rule c rule (Some cur) n = (ok, n1, tr1)"
      by (cases "update_rewrite_rule c rule (Some cur) n") auto
    obtain fin2 n2 tr2 where rest: "update_existing_rules c target cur ds n1 = (fin2, n2, tr2)"
      by (cases "update_existing_rules c target cur ds n1") auto
    from Cons.prems(1) r o True one rest have eq: "fin = fin2" "tr = tr1 @ tr2" by auto
    from o dom have "map_of cur (domain rule) = Some old" by simp
    from posted_update_rewrite_rule [OF one this assms(4)]
    have p: "set (posted update tr1) = {d}" "posted add tr1 = []" using dom by simp_all
    from Cons.IH [OF rest sub] p eq nu show ?thesis by (auto simp: posted_append)
  next
    case False
    then have nu: "\<not> needs_update target cur d" using r o by (simp add: needs_update_def)
    from Cons.prems(1) r o False
    have rest: "update_existing_rules c target cur ds n = (fin, n', tr)" by auto
    from Cons.IH [OF rest sub] nu show ?thesis by auto
  qed
qed

lemma delete_obsolete_rules_posts:
  "delete_obsolete_rules c cur ds n = (fin, n', tr) \<Longrightarrow>
     fin \<and> posted add tr = [] \<and> posted update tr = []"
proof (induction ds arbitrary: n fin n' tr)
  case Nil
  then show ?case by simp
next
  case (Cons d ds)
  obtain ok n1 tr1 where one: "delete_rewrite_rule c d (Some cur) n = (ok, n1, tr1)"
    by (cases "delete_rewrite_rule c d (Some cur) n") auto
  obtain fin2 n2 tr2 where rest: "delete_obsolete_rules c cur ds n1 = (fin2, n2, tr2)"
    by (cases "delete_obsolete_rules c cur ds n1") auto
  from Cons.prems one rest have eq: "fin = fin2" "tr = tr1 @ tr2" by simp_all
  from Cons.IH [OF rest] posted_other_delete_rewrite_rule [OF one, of add]
       posted_other_delete_rewrite_rule [OF one, of update] eq
  show ?case by (simp add: posted_append)
qed

lemma apply_plan_posts:
  assumes "apply_plan c target managed cur n = (ok, n', tr)"
      and "keyed_by_domain target" and "1 \<le> max_retries c"
  shows "ok \<and> set (posted add tr) = set (dict_keys target) - set (dict_keys cur) \<and>
         set (posted update tr)
           = {d \<in> set (dict_keys target) \<inter> set (dict_keys cur). needs_update target cur d}"
proof -
  obtain ok1 n1 tr1 where a: "add_new_rules c target (to_add_or_update target cur) n = (ok1, n1, tr1)"
    by (cases "add_new_rules c target (to_add_or_update target cur) n") auto
  obtain ok2 n2 tr2 where u:
    "update_existing_rules c target cur (to_update target cur) n1 = (ok2, n2, tr2)"
    by (cases "update_existing_rules c target cur (to_update target cur) n1") auto
  obtain ok3 n3 tr3 where d:
    "delete_obsolete_rules c cur (to_delete target managed) n2 = (ok3, n3, tr3)"
    by (cases "delete_obsolete_rules c cur (to_delete target managed) n2") auto
  have sa: "set (to_add_or_update target cur) = set (dict_keys target) - set (dict_keys cur)"
    by (auto simp: to_add_or_update_def set_diff_def)
  have su: "set (to_update target cur) = set (dict_keys target) \<inter> set (dict_keys cur)"
    by (auto simp: to_update_def set_inter_def)
  from add_new_rules_posts [OF a _ assms(2,3)] sa
  have pa: "ok1" "set (posted add tr1) = set (dict_keys target) - set (dict_keys cur)"
           "posted update tr1 = []" by auto
  from update_existing_rules_posts [OF u _ assms(2,3)] su
  have pu: "ok2" "posted add tr2 = []"
    "set (posted update tr2)
       = {d \<in> set (dict_keys target) \<inter> set (dict_keys cur). needs_update target cur d}" by auto
  from delete_obsolete_rules_posts [OF d]
  have pd: "ok3" "posted add tr3 = []" "posted update tr3 = []" by auto
  from assms(1) a u d pa(1) pu(1) have "ok = ok3" "tr = tr1 @ tr2 @ tr3"
    by (auto simp: apply_plan_def)
  with pa pu pd show ?thesis by (simp add: posted_append)
qed

lemma sync_rules_applies_plan:
  assumes "fst (sync_rules c target managed n)"
  shows "sync_rules c target managed n =
           (case apply_plan c target managed (fst (get_rewrite_rules n)) (snd (session_get n)) of
              (ok, n1, tr) \<Rightarrow> (ok, n1, HttpGet # tr))"
proof -
  obtain cur n0 tr0 where g: "get_rewrite_rules n = (cur, n0, tr0)"
    by (cases "get_rewrite_rules n") auto
  have ne: "cur \<noteq> []"
  proof
    assume "cur = []"
    with g have "fst (get_rewrite_rules n) = []" by simp
    then have "sync_rules c target managed n = (False, snd (session_get n), [HttpGet])"
      by (simp add: sync_rules_abort)
    with assms show False by simp
  qed
  have ns: "\<not> safety_check_failed c target managed"
  proof
    assume "safety_check_failed c target managed"
    then have "sync_rules c target managed n = (False, snd (session_get n), [HttpGet])"
      by (simp add: sync_rules_abort)
    with assms show False by simp
  qed
  from sync_rules_proceeds [OF g ne ns] g get_rewrite_rules_session [OF g]
  show ?thesis by simp
qed

text \<open>
  Claim C4 (the mutation plan). For a desired set keyed by domain, as the data model has
  it and \<^verbatim>\<open>generate_rules\<close> builds it, and a client whose calls make at least one attempt,
  as \<^verbatim>\<open>_validate_configuration\<close> demands: the set to add is the desired keys without the
  remote keys, the set to check for update is their intersection, and the set to delete is
  the managed keys without the desired keys. Carrying out the plan sends an add request
  exactly for the domains to add, and an update request exactly for the domains of the
  intersection whose remote rule differs from the desired rule in answer or enabled flag;
  the other domains of the intersection get no request. Every cycle in which the client's
  \<^verbatim>\<open>sync_rules\<close> returns True has carried out that plan against the rules the provider
  listed.
\<close>

theorem mutation_plan_is_three_way_diff:
  assumes "keyed_by_domain target_rules" and "1 \<le> max_retries c"
  shows "set (to_add_or_update target_rules current_rules)
           = set (dict_keys target_rules) - set (dict_keys current_rules) \<and>
         set (to_update target_rules current_rules)
           = set (dict_keys target_rules) \<inter> set (dict_keys current_rules) \<and>
         set (to_delete target_rules managed_rules)
           = set (app_managed_domains managed_rules) - set (dict_keys target_rules) \<and>
         set (posted add (snd (snd (apply_plan c target_rules managed_rules current_rules n))))
           = set (dict_keys target_rules) - set (dict_keys current_rules) \<and>
         set (posted update (snd (snd (apply_plan c target_rules managed_rules current_rules n))))
           = {d \<in> set (dict_keys target_rules) \<inter> set (dict_keys current_rules).
                needs_update target_rules current_rules d} \<and>
         (fst (sync_rules c target_rules managed_rules n) \<longrightarrow>
            set (posted add (snd (snd (sync_rules c target_rules managed_rules n))))
              = set (dict_keys target_rules) - set (dict_keys (fst (get_rewrite_rules n))) \<and>
            set (posted update (snd (snd (sync_rules c target_rules managed_rules n))))
              = {d \<in> set (dict_keys target_rules) \<inter> set (dict_keys (fst (get_rewrite_rules n))).
                   needs_update target_rules (fst (get_rewrite_rules n)) d})"
proof -
  have sa: "set (to_add_or_update target_rules current_rules)
              = set (dict_keys target_rules) - set (dict_keys current_rules)"
    by (auto simp: to_add_or_update_def set_diff_def)
  have su: "set (to_update target_rules current_rules)
              = set (dict_keys target_rules) \<inter> set (dict_keys current_rules)"
    by (auto simp: to_update_def set_inter_def)
  have sd: "set (to_delete target_rules managed_rules)
              = set (app_managed_domains managed_rules) - set (dict_keys target_rules)"
    by (auto simp: to_delete_def set_diff_def)
  have plan: "set (posted add (snd (snd (apply_plan c target_rules managed_rules cur m))))
           = set (dict_keys target_rules) - set (dict_keys cur) \<and>
         set (posted update (snd (snd (apply_plan c target_rules managed_rules cur m))))
           = {d \<in> set (dict_keys target_rules) \<inter> set (dict_keys cur).
                needs_update target_rules cur d}" for cur m
  proof -
    obtain ok n1 tr where p: "apply_plan c target_rules managed_rules cur m = (ok, n1, tr)"
      by (cases "apply_plan c target_rules managed_rules cur m") auto
    from apply_plan_posts [OF p assms] p show ?thesis by simp
  qed
  have sync: "set (posted add (snd (snd (sync_rules c target_rules managed_rules n))))
              = set (dict_keys target_rules) - set (dict_keys (fst (get_rewrite_rules n))) \<and>
            set (posted update (snd (snd (sync_rules c target_rules managed_rules n))))
              = {d \<in> set (dict_keys target_rules) \<inter> set (dict_keys (fst (get_rewrite_rules n))).
                   needs_update target_rules (fst (get_rewrite_rules n)) d}"
    if ok: "fst (sync_rules c target_rules managed_rules n)"
  proof -
    obtain ok1 n1 tr where p:
      "apply_plan c target_rules managed_rules (fst (get_rewrite_rules n)) (snd (session_get n))
         = (ok1, n1, tr)"
      by (cases "apply_plan c target_rules managed_rules (fst (get_rewrite_rules n))
                   (snd (session_get n))") auto
    from sync_rules_applies_plan [OF ok] p
    have "snd (snd (sync_rules c target_rules managed_rules n)) = HttpGet # tr" by simp
    with apply_plan_posts [OF p assms] show ?thesis by simp
  qed
  from sa su sd plan [of current_rules n] sync show ?thesis by blast
qed

text \<open>
  The three-way scenario of the specification: desired x and y, remote x and z, managed z.
  The plan is to add y, to update nothing (x is remote as desired) and to delete z, and
  carrying it out sends exactly the add of y and the deletion of z.
\<close>

theorem mutation_plan_is_three_way_diff_witness:
  "set (posted add (snd (snd (apply_plan \<lparr>max_retries = 3, retry_delay = 2, request_timeout = 10, safety_threshold = float (4 / 5)\<rparr>
     [(''x'', \<lparr>domain = ''x'', answer = ''10.0.0.1'', enabled = True\<rparr>), (''y'',
     \<lparr>domain = ''y'', answer = ''10.0.0.2'', enabled = True\<rparr>)]
     (Some [(''z'', \<lparr>domain = ''z'', answer = ''10.0.0.3'', enabled = True\<rparr>)])
     [(''x'', \<lparr>domain = ''x'', answer = ''10.0.0.1'', enabled = True\<rparr>), (''z'',
     \<lparr>domain = ''z'', answer = ''10.0.0.3'', enabled = True\<rparr>)]
     \<lparr>get_replies = [], post_replies = [Response 200, Response 200]\<rparr>))))
   = set (dict_keys [(''x'', \<lparr>domain = ''x'', answer = ''10.0.0.1'', enabled = True\<rparr>), (''y'',
     \<lparr>domain = ''y'', answer = ''10.0.0.2'', enabled = True\<rparr>)])
     - set (dict_keys [(''x'', \<lparr>domain = ''x'', answer = ''10.0.0.1'', enabled = True\<rparr>), (''z'',
     \<lparr>domain = ''z'', answer = ''10.0.0.3'', enabled = True\<rparr>)]) \<and>
   to_add_or_update [(''x'', \<lparr>domain = ''x'', answer = ''10.0.0.1'', enabled = True\<rparr>), (''y'',
     \<lparr>domain = ''y'', answer = ''10.0.0.2'', enabled = True\<rparr>)]
     [(''x'', \<lparr>domain = ''x'', answer = ''10.0.0.1'', enabled = True\<rparr>), (''z'',
     \<lparr>domain = ''z'', answer = ''10.0.0.3'', enabled = True\<rparr>)] = [''y''] \<and>
   filter (needs_update [(''x'', \<lparr>domain = ''x'', answer = ''10.0.0.1'', enabled = True\<rparr>), (''y'',
     \<lparr>domain = ''y'', answer = ''10.0.0.2'', enabled = True\<rparr>)]
             [(''x'', \<lparr>domain = ''x'', answer = ''10.0.0.1'', enabled = True\<rparr>), (''z'',
     \<lparr>domain = ''z'', answer = ''10.0.0.3'', enabled = True\<rparr>)])
     (to_update [(''x'', \<lparr>domain = ''x'', answer = ''10.0.0.1'', enabled = True\<rparr>), (''y'',
     \<lparr>domain = ''y'', answer = ''10.0.0.2'', enabled = True\<rparr>)]
        [(''x'', \<lparr>domain = ''x'', answer = ''10.0.0.1'', enabled = True\<rparr>), (''z'',
     \<lparr>domain = ''z'', answer = ''10.0.0.3'', enabled = True\<rparr>)]) = [] \<and>
   to_delete [(''x'', \<lparr>domain = ''x'', answer = ''10.0.0.1'', enabled = True\<rparr>), (''y'',
     \<lparr>domain = ''y'', answer = ''10.0.0.2'', enabled = True\<rparr>)]
     (Some [(''z'', \<lparr>domain = ''z'', answer = ''10.0.0.3'', enabled = True\<rparr>)]) = [''z''] \<and>
   apply_plan \<lparr>max_retries = 3, retry_delay = 2, request_timeout = 10, safety_threshold = float (4 / 5)\<rparr>
     [(''x'', \<lparr>domain = ''x'', answer = ''10.0.0.1'', enabled = True\<rparr>), (''y'',
     \<lparr>domain = ''y'', answer = ''10.0.0.2'', enabled = True\<rparr>)]
     (Some [(''z'', \<lparr>domain = ''z'', answer = ''10.0.0.3'', enabled = True\<rparr>)])
     [(''x'', \<lparr>domain = ''x'', answer = ''10.0.0.1'', enabled = True\<rparr>), (''z'',
     \<lparr>domain = ''z'', answer = ''10.0.0.3'', enabled = True\<rparr>)]
     \<lparr>get_replies = [], post_replies = [Response 200, Response 200]\<rparr>
   = (True, \<lparr>get_replies = [], post_replies = []\<rparr>,
      [HttpPost add (RuleJson ''y'' ''10.0.0.2'' True),
       HttpPost delete (DeleteJson ''z'' ''10.0.0.3'')])"
  (is "?A \<and> ?B")
proof
  have h1: "keyed_by_domain [(''x'', \<lparr>domain = ''x'', answer = ''10.0.0.1'', enabled = True\<rparr>), (''y'',
     \<lparr>domain = ''y'', answer = ''10.0.0.2'', enabled = True\<rparr>)]"
    by code_simp
  have h2: "1 \<le> max_retries \<lparr>max_retries = 3, retry_delay = 2, request_timeout = 10, safety_threshold = float (4 / 5)\<rparr>"
    by simp
  from mutation_plan_is_three_way_diff [OF h1 h2, THEN conjunct2, THEN conjunct2, THEN conjunct2,
         THEN conjunct1]
  show ?A .
  show ?B by code_simp
qed

text \<open>
  In that scenario the whole managed set, one rule, is to be deleted. Under the default
  threshold 0.8 the safety check of \<^verbatim>\<open>sync_rules\<close> therefore stops the cycle before the plan
  is carried out; under the threshold 1 the cycle carries it out.
\<close>

lemma three_way_scenario_and_safety_check:
  "sync_rules \<lparr>max_retries = 3, retry_delay = 2, request_timeout = 10, safety_threshold = float (4 / 5)\<rparr>
     [(''x'', \<lparr>domain = ''x'', answer = ''10.0.0.1'', enabled = True\<rparr>), (''y'',
     \<lparr>domain = ''y'', answer = ''10.0.0.2'', enabled = True\<rparr>)]
     (Some [(''z'', \<lparr>domain = ''z'', answer = ''10.0.0.3'', enabled = True\<rparr>)])
     \<lparr>get_replies = [GetResponse 200 (JsonList [RuleData (Some ''x'') (Some ''10.0.0.1'')
     None, RuleData (Some ''z'') (Some ''10.0.0.3'') None])], post_replies = [Response 200,
     Response 200]\<rparr>
   = (False, \<lparr>get_replies = [], post_replies = [Response 200, Response 200]\<rparr>, [HttpGet]) \<and>
   sync_rules \<lparr>max_retries = 3, retry_delay = 2, request_timeout = 10, safety_threshold = 1\<rparr>
     [(''x'', \<lparr>domain = ''x'', answer = ''10.0.0.1'', enabled = True\<rparr>), (''y'',
     \<lparr>domain = ''y'', answer = ''10.0.0.2'', enabled = True\<rparr>)]
     (Some [(''z'', \<lparr>domain = ''z'', answer = ''10.0.0.3'', enabled = True\<rparr>)])
     \<lparr>get_replies = [GetResponse 200 (JsonList [RuleData (Some ''x'') (Some ''10.0.0.1'')
     None, RuleData (Some ''z'') (Some ''10.0.0.3'') None])], post_replies = [Response 200,
     Response 200]\<rparr>
   = (True, \<lparr>get_replies = [], post_replies = []\<rparr>,
      [HttpGet, HttpPost add (RuleJson ''y'' ''10.0.0.2'' True),
       HttpPost delete (DeleteJson ''z'' ''10.0.0.3'')])"
  by code_simp

section \<open>What a completed cycle persists\<close>

lemma add_new_rules_completes:
  "add_new_rules c target ds n = (fin, n', tr) \<Longrightarrow> set ds \<subseteq> set (dict_keys target) \<Longrightarrow> fin"
proof (induction ds arbitrary: n fin n' tr)
  case Nil
  then show ?case by simp
next
  case (Cons d ds)
  from Cons.prems(2) obtain rule where r: "map_of target d = Some rule"
    using in_dict_keys_map_of by fastforce
  obtain ok n1 tr1 where one: "add_rewrite_rule c rule n = (ok, n1, tr1)"
    by (cases "add_rewrite_rule c rule n") auto
  obtain fin2 n2 tr2 where rest: "add_new_rules c target ds n1 = (fin2, n2, tr2)"
    by (cases "add_new_rules c target ds n1") auto
  from Cons.prems r one rest have "fin = fin2" by simp
  moreover from Cons.prems(2) have "set ds \<subseteq> set (dict_keys target)" by simp
  ultimately show ?case using Cons.IH [OF rest] by simp
qed

lemma update_existing_rules_completes:
  "update_existing_rules c target cur ds n = (fin, n', tr) \<Longrightarrow>
     set ds \<subseteq> set (dict_keys target) \<inter> set (dict_keys cur) \<Longrightarrow> fin"
proof (induction ds arbitrary: n fin n' tr)
  case Nil
  then show ?case by simp
next
  case (Cons d ds)
  from Cons.prems(2) obtain rule where r: "map_of target d = Some rule"
    using in_dict_keys_map_of by fastforce
  from Cons.prems(2) obtain old where o: "map_of cur d = Some old"
    using in_dict_keys_map_of by fastforce
  from Cons.prems(2) have sub: "set ds \<subseteq> set (dict_keys target) \<inter> set (dict_keys cur)" by simp
  show ?case
  proof (cases "answer old \<noteq> answer rule \<or> enabled old \<noteq> enabled rule")
    case True
    obtain ok n1 tr1 where one: "update_rewrite_rule c rule (Some cur) n = (ok, n1, tr1)"
      by (cases "update_rewrite_rule c rule (Some cur) n") auto
    obtain fin2 n2 tr2 where rest: "update_existing_rules c target cur ds n1 = (fin2, n2, tr2)"
      by (cases "update_existing_rules c target cur ds n1") auto
    from Cons.prems(1) r o True one rest have "fin = fin2" by auto
    with Cons.IH [OF rest sub] show ?thesis by simp
  next
    case False
    with Cons.prems(1) r o
    have "update_existing_rules c target cur ds n = (fin, n', tr)" by auto
    from Cons.IH [OF this sub] show ?thesis .
  qed
qed

lemma apply_plan_completes: "apply_plan c target managed cur n = (ok, n', tr) \<Longrightarrow> ok"
proof -
  assume run: "apply_plan c target managed cur n = (ok, n', tr)"
  obtain ok1 n1 tr1 where a: "add_new_rules c target (to_add_or_update target cur) n = (ok1, n1, tr1)"
    by (cases "add_new_rules c target (to_add_or_update target cur) n") auto
  obtain ok2 n2 tr2 where u:
    "update_existing_rules c target cur (to_update target cur) n1 = (ok2, n2, tr2)"
    by (cases "update_existing_rules c target cur (to_update target cur) n1") auto
  obtain ok3 n3 tr3 where d:
    "delete_obsolete_rules c cur (to_delete target managed) n2 = (ok3, n3, tr3)"
    by (cases "delete_obsolete_rules c cur (to_delete target managed) n2") auto
  have "ok1" using a by (rule add_new_rules_completes) (auto simp: to_add_or_update_def set_diff_def)
  moreover have "ok2"
    using u by (rule update_existing_rules_completes) (auto simp: to_update_def set_inter_def)
  moreover have "ok3" using delete_obsolete_rules_posts [OF d] by simp
  ultimately show ok using run a u d by (simp add: apply_plan_def)
qed

lemma sync_rules_succeeds:
  assumes "fst (get_rewrite_rules n) \<noteq> []" and "\<not> safety_check_failed c target managed"
  shows "fst (sync_rules c target managed n)"
proof -
  obtain cur n0 tr0 where g: "get_rewrite_rules n = (cur, n0, tr0)"
    by (cases "get_rewrite_rules n") auto
  with assms(1) have ne: "cur \<noteq> []" by simp
  obtain ok n1 tr where p: "apply_plan c target managed cur n0 = (ok, n1, tr)"
    by (cases "apply_plan c target managed cur n0") auto
  from sync_rules_proceeds [OF g ne assms(2)] p apply_plan_completes [OF p]
  show ?thesis by simp
qed

lemma update_new_key: "k \<notin> fst ` set al \<Longrightarrow> AList.update k v al = al @ [(k, v)]"
  by (induction al) auto

lemma fold_update_distinct:
  assumes "\<And>kv acc. step kv acc = AList.update (fst kv) (val kv) acc"
  shows "distinct (map fst xs) \<Longrightarrow> fst ` set acc \<inter> fst ` set xs = {} \<Longrightarrow>
         fold step xs acc = acc @ map (\<lambda>kv. (fst kv, val kv)) xs"
proof (induction xs arbitrary: acc)
  case Nil
  then show ?case by simp
next
  case (Cons x xs)
  from Cons.prems have new: "fst x \<notin> fst ` set acc" by auto
  from Cons.prems have "fst ` set (acc @ [(fst x, val x)]) \<inter> fst ` set xs = {}"
    by (auto simp: image_iff)
  with Cons have "fold step xs (acc @ [(fst x, val x)])
                    = (acc @ [(fst x, val x)]) @ map (\<lambda>kv. (fst kv, val kv)) xs"
    by simp
  moreover from new have "step x acc = acc @ [(fst x, val x)]"
    by (simp add: assms update_new_key)
  ultimately show ?case by simp
qed

lemma rewrite_rule_eta:
  "\<lparr>domain = domain r, answer = answer r, enabled = enabled r\<rparr> = (r :: RewriteRule)"
  by (cases r) simp

lemma fold_rule_entry:
  "distinct (map fst rs) \<Longrightarrow>
     fold rule_entry rs []
       = map (\<lambda>kr. (fst kr, RuleData (Some (domain (snd kr))) (Some (answer (snd kr)))
                                     (Some (enabled (snd kr))))) rs"
  using fold_update_distinct [of rule_entry
          "\<lambda>kr. RuleData (Some (domain (snd kr))) (Some (answer (snd kr))) (Some (enabled (snd kr)))"
          rs "[]"]
  by (simp add: rule_entry_def)

lemma fold_stored_rule:
  assumes "distinct (map fst rs)"
  shows "fold stored_rule
           (map (\<lambda>kr. (fst kr, RuleData (Some (domain (snd kr))) (Some (answer (snd kr)))
                                         (Some (enabled (snd kr))))) rs) [] = rs"
proof -
  let ?enc = "\<lambda>kr::string \<times> RewriteRule.
     (fst kr, RuleData (Some (domain (snd kr))) (Some (answer (snd kr))) (Some (enabled (snd kr))))"
  have "fold stored_rule (map ?enc rs) acc = fold (\<lambda>kr. AList.update (fst kr) (snd kr)) rs acc"
    for acc
    by (induction rs arbitrary: acc) (auto simp: rewrite_rule_eta)
  moreover have "fold (\<lambda>kr. AList.update (fst kr) (snd kr)) rs [] = [] @ map (\<lambda>kv. (fst kv, snd kv)) rs"
    using assms by (intro fold_update_distinct) auto
  ultimately show ?thesis by simp
qed

lemma stored_round_trip:
  "distinct (map fst rs) \<Longrightarrow> fold stored_rule (fold rule_entry rs []) [] = rs"
  by (simp add: fold_rule_entry fold_stored_rule)

lemma distinct_fold_generated_rule:
  "distinct (map fst acc) \<Longrightarrow> distinct (map fst (fold generated_rule dns acc))"
  by (induction dns arbitrary: acc) (auto simp: generated_rule_def AList.distinct_update)

lemma distinct_generate_rules: "distinct (map fst (generate_rules dns))"
  by (simp add: generate_rules_def distinct_fold_generated_rule)

lemma save_to_file_result:
  "save_to_file rs p st = (e, st') \<Longrightarrow> CHR ''/'' \<in> set p \<Longrightarrow>
     e = None \<and> map_of (files st') p = Some (Dict (fold rule_entry rs []))"
  by (auto simp: save_to_file_def write_file_def move_def Let_def AList.update_conv'
           split: option.splits)

lemma save_managed_rules_result:
  "save_managed_rules db stamp rs st = (e, st') \<Longrightarrow> CHR ''/'' \<in> set (db_file db) \<Longrightarrow>
     e = None \<and> map_of (files st') (db_file db) = Some (Dict (fold rule_entry rs []))"
  unfolding save_managed_rules_def by (rule save_to_file_result)

lemma rule_db_has_directory: "CHR ''/'' \<in> set (db_file (rule_db app))"
  by (simp add: rule_db_def rule_db_file_def)

text \<open>
  Claim C5. In every cycle that is aborted neither at the list request (the provider's
  list holds a rule) nor by the safety check (as the code computes it), whatever the
  provider answers to the single add, update and delete requests, the cycle returns True
  and the primary file holds the desired set afterwards: reading it back gives exactly
  the rules that \<^verbatim>\<open>generate_rules\<close> produced.
\<close>

theorem completed_cycle_persists_desired:
  assumes "load_managed_rules (rule_db app) now st = (Inr managed_rules, st1)"
      and "fst (get_rewrite_rules n) \<noteq> []"
      and "\<not> safety_check_failed (adguard app) (generate_rules dns) (Some managed_rules)"
  shows "fst (app_sync_rules app now stamp dns st n) \<and>
         load_from_file (fst (snd (app_sync_rules app now stamp dns st n))) (db_file (rule_db app))
           = Inr (generate_rules dns)"
proof -
  obtain ok n1 tr where s:
    "sync_rules (adguard app) (generate_rules dns) (Some managed_rules) n = (ok, n1, tr)"
    by (cases "sync_rules (adguard app) (generate_rules dns) (Some managed_rules) n") auto
  with sync_rules_succeeds [OF assms(2,3)] have ok by simp
  obtain e st2 where sv:
    "save_managed_rules (rule_db app) stamp (generate_rules dns) st1 = (e, st2)"
    by (cases "save_managed_rules (rule_db app) stamp (generate_rules dns) st1") auto
  from save_managed_rules_result [OF sv rule_db_has_directory]
  have e: "e = None"
    and f: "map_of (files st2) (db_file (rule_db app))
              = Some (Dict (fold rule_entry (generate_rules dns) []))" by simp_all
  from assms(1) s \<open>ok\<close> sv e
  have a: "app_sync_rules app now stamp dns st n = (True, st2, n1, tr)"
    by (simp add: app_sync_rules_def)
  from f have "load_from_file st2 (db_file (rule_db app)) = Inr (generate_rules dns)"
    by (simp add: load_from_file_def stored_round_trip distinct_generate_rules)
  with a show ?thesis by simp
qed

text \<open>
  Partial application: x is remote with another answer and its update fails three times,
  y is new and its creation succeeds. The cycle returns True and the file holds x and y.
\<close>

theorem completed_cycle_persists_desired_witness:
  "load_from_file (fst (snd (app_sync_rules
      \<lparr>adguard = \<lparr>max_retries = 3, retry_delay = 2, request_timeout = 10,
      safety_threshold = float (4 / 5)\<rparr>, db_max_backups = 5\<rparr>
      ''99'' ''20240101_000000'' [(''x'', ''10.0.0.9''), (''y'', ''10.0.0.2'')]
      \<lparr>files = [(rule_db_file, Dict [(''x'', RuleData (Some ''x'') (Some ''10.0.0.1'')
      (Some True))])], journal = []\<rparr>
      \<lparr>get_replies = [GetResponse 200 (JsonList [RuleData (Some ''x'') (Some ''10.0.0.1'')
      None])], post_replies = [Response 200, Response 500, Response 500, Response 500]\<rparr>)))
     (db_file (rule_db \<lparr>adguard = \<lparr>max_retries = 3, retry_delay = 2, request_timeout = 10,
      safety_threshold = float (4 / 5)\<rparr>, db_max_backups = 5\<rparr>))
   = Inr (generate_rules [(''x'', ''10.0.0.9''), (''y'', ''10.0.0.2'')]) \<and>
   generate_rules [(''x'', ''10.0.0.9''), (''y'', ''10.0.0.2'')]
   = [(''x'', \<lparr>domain = ''x'', answer = ''10.0.0.9'', enabled = True\<rparr>), (''y'',
     \<lparr>domain = ''y'', answer = ''10.0.0.2'', enabled = True\<rparr>)] \<and>
   snd (snd (snd (app_sync_rules
      \<lparr>adguard = \<lparr>max_retries = 3, retry_delay = 2, request_timeout = 10,
      safety_threshold = float (4 / 5)\<rparr>, db_max_backups = 5\<rparr>
      ''99'' ''20240101_000000'' [(''x'', ''10.0.0.9''), (''y'', ''10.0.0.2'')]
      \<lparr>files = [(rule_db_file, Dict [(''x'', RuleData (Some ''x'') (Some ''10.0.0.1'')
      (Some True))])], journal = []\<rparr>
      \<lparr>get_replies = [GetResponse 200 (JsonList [RuleData (Some ''x'') (Some ''10.0.0.1'')
      None])], post_replies = [Response 200, Response 500, Response 500, Response 500]\<rparr>)))
   = [HttpGet, HttpPost add (RuleJson ''y'' ''10.0.0.2'' True),
      HttpPost update (UpdateJson ''x'' ''10.0.0.1'' ''10.0.0.9''), Sleep 2,
      HttpPost update (UpdateJson ''x'' ''10.0.0.1'' ''10.0.0.9''), Sleep 2,
      HttpPost update (UpdateJson ''x'' ''10.0.0.1'' ''10.0.0.9'')]"
  (is "?A \<and> ?B \<and> ?C")
proof (intro conjI)
  let ?app = "\<lparr>adguard = \<lparr>max_retries = 3, retry_delay = 2, request_timeout = 10,
      safety_threshold = float (4 / 5)\<rparr>, db_max_backups = 5\<rparr>"
  let ?st = "\<lparr>files = [(rule_db_file, Dict [(''x'', RuleData (Some ''x'') (Some ''10.0.0.1'')
      (Some True))])], journal = []\<rparr>"
  let ?n = "\<lparr>get_replies = [GetResponse 200 (JsonList [RuleData (Some ''x'') (Some ''10.0.0.1'')
      None])], post_replies = [Response 200, Response 500, Response 500, Response 500]\<rparr>"
  have h1: "load_managed_rules (rule_db ?app) ''99'' ?st = (Inr [(''x'', \<lparr>domain = ''x'', answer = ''10.0.0.1'', enabled = True\<rparr>)], ?st)"
    by code_simp
  have h2: "fst (get_rewrite_rules ?n) \<noteq> []" by code_simp
  have h3: "\<not> safety_check_failed (adguard ?app) (generate_rules [(''x'', ''10.0.0.9''), (''y'', ''10.0.0.2'')])
               (Some [(''x'', \<lparr>domain = ''x'', answer = ''10.0.0.1'', enabled = True\<rparr>)])"
    by code_simp
  from completed_cycle_persists_desired [OF h1 h2 h3, THEN conjunct2] show ?A .
  show ?B by code_simp
  show ?C by code_simp
qed

section \<open>A second cycle over an unchanged desired set\<close>











section \<open>Loading over an unreadable primary file\<close>




lemma copy2_files:
  "copy2 src dst st = Some st' \<Longrightarrow>
     map_of (files st') = (map_of (files st))(dst := map_of (files st) src) \<and>
     journal st' = journal st @ [Copy src dst]"
  by (auto simp: copy2_def AList.update_conv' split: option.splits)






lemma not_backup_pattern_primary: "\<not> backup_pattern db (db_file db)"
  by (simp add: backup_pattern_def)


lemma not_backup_pattern_backup_file: "\<not> backup_pattern db (backup_file db)"
  by (simp add: backup_pattern_def backup_file_def)



lemma set_glob_backups:
  "set (glob_backups db st) = {p \<in> fst ` set (files st). backup_pattern db p}"
  by (auto simp: glob_backups_def set_dict_keys)












section \<open>Saving: backup, pruning, atomic write\<close>

lemma backup_pattern_new:
  "CHR ''/'' \<notin> set stamp \<Longrightarrow> backup_pattern db (db_file db @ ''.backup.'' @ stamp)"
  by (simp add: backup_pattern_def)

lemma not_backup_pattern_tmp: "\<not> backup_pattern db (db_file db @ ''.tmp'')"
  by (simp add: backup_pattern_def)

lemma keys_dom: "fst ` set (files st) = dom (map_of (files st))"
  by (simp add: dom_map_of_conv_image_fst)

lemma set_glob_backups_dom:
  "set (glob_backups db st) = {p \<in> dom (map_of (files st)). backup_pattern db p}"
  by (simp add: set_glob_backups keys_dom)

lemma distinct_glob_backups: "distinct (glob_backups db st)"
  by (simp add: glob_backups_def dict_keys_def)

lemma backup_files_eq:
  assumes "set (glob_backups db st) = set xs" and "distinct xs"
  shows "backup_files db st = rev (sort xs)"
proof -
  have "sort (glob_backups db st) = sort xs"
    using assms distinct_glob_backups [of db st]
    by (intro sorted_distinct_set_unique) simp_all
  then show ?thesis by (simp add: backup_files_def)
qed

lemma distinct_backup_files: "distinct (backup_files db st)"
  by (simp add: backup_files_def distinct_glob_backups)

lemma set_backup_files_glob: "set (backup_files db st) = set (glob_backups db st)"
  by (simp add: backup_files_def)

lemma remove_backup_files:
  "map_of (files (remove_backup p st)) = (map_of (files st))(p := None)"
  by (auto simp: remove_backup_def remove_def path_exists_def AList.delete_conv')

lemma remove_backup_journal:
  "path_exists st p \<Longrightarrow> journal (remove_backup p st) = journal st @ [Remove p]"
  by (simp add: remove_backup_def remove_def)

lemma fold_remove_backup_files:
  "map_of (files (fold remove_backup ps st)) q
     = (if q \<in> set ps then None else map_of (files st) q)"
  by (induction ps arbitrary: st) (auto simp: remove_backup_files)

lemma fold_remove_backup_journal:
  "distinct ps \<Longrightarrow> \<forall>p \<in> set ps. path_exists st p \<Longrightarrow>
     journal (fold remove_backup ps st) = journal st @ map Remove ps"
proof (induction ps arbitrary: st)
  case Nil
  then show ?case by simp
next
  case (Cons p ps)
  have "\<forall>q \<in> set ps. path_exists (remove_backup p st) q"
    using Cons.prems by (auto simp: path_exists_def remove_backup_files)
  with Cons show ?case by (simp add: remove_backup_journal)
qed

lemma cleanup_old_backups_files:
  "map_of (files (cleanup_old_backups db st)) q
     = (if q \<in> set (drop (max_backups db) (backup_files db st)) then None
        else map_of (files st) q)"
  by (simp add: cleanup_old_backups_def fold_remove_backup_files)

lemma cleanup_old_backups_journal:
  "journal (cleanup_old_backups db st)
     = journal st @ map Remove (drop (max_backups db) (backup_files db st))"
proof -
  have "\<forall>p \<in> set (drop (max_backups db) (backup_files db st)). path_exists st p"
    using set_backup_files [of db st] by (auto simp: path_exists_iff dest: in_set_dropD)
  then show ?thesis
    by (simp add: cleanup_old_backups_def fold_remove_backup_journal distinct_backup_files)
qed

lemma set_take_drop_distinct:
  "distinct xs \<Longrightarrow> set (take n xs) = set xs - set (drop n xs)"
proof -
  assume d: "distinct xs"
  have "set xs = set (take n xs) \<union> set (drop n xs)"
    by (metis append_take_drop_id set_append)
  moreover have "set (take n xs) \<inter> set (drop n xs) = {}"
    using d by (metis append_take_drop_id distinct_append)
  ultimately show ?thesis by blast
qed

lemma cleanup_old_backups_glob:
  "set (glob_backups db (cleanup_old_backups db st)) = set (take (max_backups db) (backup_files db st))"
proof -
  have "set (glob_backups db (cleanup_old_backups db st))
          = set (glob_backups db st) - set (drop (max_backups db) (backup_files db st))"
    by (auto simp: set_glob_backups_dom cleanup_old_backups_files dom_def split: if_splits)
  also have "\<dots> = set (take (max_backups db) (backup_files db st))"
    using set_take_drop_distinct [OF distinct_backup_files, of "max_backups db" db st]
    by (simp add: set_backup_files_glob)
  finally show ?thesis .
qed

lemma sorted_desc_take:
  assumes "sorted (rev xs)" and "distinct xs"
  shows "rev (sort (take m xs)) = take m xs"
proof -
  have "sorted (rev (take m xs))"
    using assms(1) by (simp add: rev_take sorted_wrt_drop)
  moreover have "distinct (rev (take m xs))" using assms(2) by simp
  ultimately have "sort (take m xs) = rev (take m xs)"
    by (intro sorted_distinct_set_unique) simp_all
  then show ?thesis by simp
qed

lemma create_backup_result:
  assumes "map_of (files st) (db_file db) = Some old" and "CHR ''/'' \<notin> set stamp"
  defines "new \<equiv> db_file db @ ''.backup.'' @ stamp"
  defines "gens \<equiv> rev (sort (List.insert new (glob_backups db st)))"
  shows "journal (create_backup db stamp st)
           = journal st @ [Copy (db_file db) new, Copy (db_file db) (backup_file db)]
               @ map Remove (drop (max_backups db) gens)"
    and "map_of (files (create_backup db stamp st)) q
           = (if q \<in> set (drop (max_backups db) gens) then None
              else if q = backup_file db then Some old
              else if q = new then Some old
              else map_of (files st) q)"
    and "set (glob_backups db (create_backup db stamp st)) = set (take (max_backups db) gens)"
proof -
  obtain st1 where c1: "copy2 (db_file db) new st = Some st1"
    using assms(1) by (auto simp: copy2_def)
  from copy2_files [OF c1] assms(1)
  have m1: "map_of (files st1) = (map_of (files st))(new \<mapsto> old)"
    and j1: "journal st1 = journal st @ [Copy (db_file db) new]" by simp_all
  have "new \<noteq> db_file db" by (simp add: new_def)
  with m1 assms(1) have p1: "map_of (files st1) (db_file db) = Some old" by simp
  then obtain st2 where c2: "copy2 (db_file db) (backup_file db) st1 = Some st2"
    by (auto simp: copy2_def)
  from copy2_files [OF c2] p1 m1 j1
  have m2: "map_of (files st2) = ((map_of (files st))(new \<mapsto> old))(backup_file db \<mapsto> old)"
    and j2: "journal st2 = journal st @ [Copy (db_file db) new, Copy (db_file db) (backup_file db)]"
    by simp_all
  from c1 c2 have cb: "create_backup db stamp st = cleanup_old_backups db st2"
    by (simp add: create_backup_def new_def)
  have pn: "backup_pattern db new"
    unfolding new_def using assms(2) by (rule backup_pattern_new)
  have "set (glob_backups db st2) = insert new (set (glob_backups db st))"
    using pn not_backup_pattern_backup_file [of db]
    by (auto simp: set_glob_backups_dom m2 split: if_splits)
  then have "set (glob_backups db st2) = set (List.insert new (glob_backups db st))" by simp
  then have bf: "backup_files db st2 = gens"
    unfolding gens_def by (rule backup_files_eq) (simp add: distinct_glob_backups)
  show "journal (create_backup db stamp st)
           = journal st @ [Copy (db_file db) new, Copy (db_file db) (backup_file db)]
               @ map Remove (drop (max_backups db) gens)"
    by (simp add: cb cleanup_old_backups_journal bf j2)
  have "new \<noteq> backup_file db" by (simp add: new_def backup_file_def)
  then show "map_of (files (create_backup db stamp st)) q
           = (if q \<in> set (drop (max_backups db) gens) then None
              else if q = backup_file db then Some old
              else if q = new then Some old
              else map_of (files st) q)"
    by (simp add: cb cleanup_old_backups_files bf m2)
  show "set (glob_backups db (create_backup db stamp st)) = set (take (max_backups db) gens)"
    by (simp add: cb cleanup_old_backups_glob bf)
qed

lemma save_to_file_files:
  assumes "CHR ''/'' \<in> set p"
  shows "fst (save_to_file rs p st) = None"
    and "map_of (files (snd (save_to_file rs p st)))
           = ((map_of (files st))(p @ ''.tmp'' := None))(p \<mapsto> Dict (fold rule_entry rs []))"
    and "journal (snd (save_to_file rs p st))
           = journal st @ [Write (p @ ''.tmp''), Move (p @ ''.tmp'') p]"
  using assms
  by (simp_all add: save_to_file_def write_file_def move_def Let_def AList.update_conv'
                    AList.delete_conv' fun_upd_twist)

lemma set_generations:
  "set (generations db stamp st) = insert (new_backup db stamp) (set (glob_backups db st))"
  by (simp add: generations_def)

lemma distinct_generations: "distinct (generations db stamp st)"
  by (simp add: generations_def distinct_glob_backups)

lemma backup_pattern_new_backup:
  "CHR ''/'' \<notin> set stamp \<Longrightarrow> backup_pattern db (new_backup db stamp)"
  unfolding new_backup_def by (rule backup_pattern_new)

lemma generations_pattern:
  "CHR ''/'' \<notin> set stamp \<Longrightarrow> g \<in> set (generations db stamp st) \<Longrightarrow> backup_pattern db g"
  by (auto simp: set_generations backup_pattern_new_backup set_glob_backups)

lemma save_over_primary:
  assumes "map_of (files st) (db_file db) = Some old"
      and "CHR ''/'' \<in> set (db_file db)" and "CHR ''/'' \<notin> set stamp"
  shows "fst (save_managed_rules db stamp rs st) = None"
    and "journal (snd (save_managed_rules db stamp rs st))
           = journal st
             @ [Copy (db_file db) (new_backup db stamp), Copy (db_file db) (backup_file db)]
             @ map Remove (drop (max_backups db) (generations db stamp st))
             @ [Write (db_file db @ ''.tmp''), Move (db_file db @ ''.tmp'') (db_file db)]"
    and "map_of (files (snd (save_managed_rules db stamp rs st))) (db_file db)
           = Some (Dict (fold rule_entry rs []))"
    and "map_of (files (snd (save_managed_rules db stamp rs st))) (backup_file db) = Some old"
    and "set (glob_backups db (snd (save_managed_rules db stamp rs st)))
           = set (take (max_backups db) (generations db stamp st))"
    and "backup_files db (snd (save_managed_rules db stamp rs st))
           = take (max_backups db) (generations db stamp st)"
proof -
  let ?cb = "create_backup db stamp st"
  let ?gens = "generations db stamp st"
  have ex: "path_exists st (db_file db)" using assms(1) by (simp add: path_exists_def)
  then have sv: "save_managed_rules db stamp rs st = save_to_file rs (db_file db) ?cb"
    by (simp add: save_managed_rules_def)
  note cb = create_backup_result [OF assms(1,3), folded new_backup_def, folded generations_def]
  note sf = save_to_file_files [OF assms(2), of rs ?cb]
  show "fst (save_managed_rules db stamp rs st) = None" by (simp add: sv sf)
  show "journal (snd (save_managed_rules db stamp rs st))
           = journal st
             @ [Copy (db_file db) (new_backup db stamp), Copy (db_file db) (backup_file db)]
             @ map Remove (drop (max_backups db) ?gens)
             @ [Write (db_file db @ ''.tmp''), Move (db_file db @ ''.tmp'') (db_file db)]"
    by (simp add: sv sf cb)
  show "map_of (files (snd (save_managed_rules db stamp rs st))) (db_file db)
           = Some (Dict (fold rule_entry rs []))"
    by (simp add: sv sf)
  have nb: "backup_file db \<notin> set (drop (max_backups db) ?gens)"
    using generations_pattern [OF assms(3)] not_backup_pattern_backup_file [of db]
    by (auto dest: in_set_dropD)
  have "backup_file db \<noteq> db_file db @ ''.tmp''" "backup_file db \<noteq> db_file db"
    by (simp_all add: backup_file_def)
  with nb show "map_of (files (snd (save_managed_rules db stamp rs st))) (backup_file db) = Some old"
    by (simp add: sv sf cb)
  have "set (glob_backups db (snd (save_managed_rules db stamp rs st)))
          = set (glob_backups db ?cb)"
    using not_backup_pattern_tmp [of db] not_backup_pattern_primary [of db]
    by (auto simp: set_glob_backups_dom sv sf split: if_splits)
  then show g: "set (glob_backups db (snd (save_managed_rules db stamp rs st)))
           = set (take (max_backups db) ?gens)"
    by (simp add: cb)
  have "backup_files db (snd (save_managed_rules db stamp rs st))
          = rev (sort (take (max_backups db) ?gens))"
    using g by (rule backup_files_eq) (simp add: distinct_generations)
  also have "\<dots> = take (max_backups db) ?gens"
    by (rule sorted_desc_take) (simp_all add: generations_def distinct_glob_backups)
  finally show "backup_files db (snd (save_managed_rules db stamp rs st))
           = take (max_backups db) ?gens" .
qed

lemma save_without_primary:
  assumes "\<not> path_exists st (db_file db)" and "CHR ''/'' \<in> set (db_file db)"
  shows "map_of (files (snd (save_managed_rules db stamp rs st))) (db_file db)
           = Some (Dict (fold rule_entry rs []))"
    and "set (glob_backups db (snd (save_managed_rules db stamp rs st))) = set (glob_backups db st)"
proof -
  from assms(1) have sv: "save_managed_rules db stamp rs st = save_to_file rs (db_file db) st"
    by (simp add: save_managed_rules_def)
  note sf = save_to_file_files [OF assms(2), of rs st]
  show "map_of (files (snd (save_managed_rules db stamp rs st))) (db_file db)
           = Some (Dict (fold rule_entry rs []))"
    by (simp add: sv sf)
  show "set (glob_backups db (snd (save_managed_rules db stamp rs st))) = set (glob_backups db st)"
    using not_backup_pattern_tmp [of db] not_backup_pattern_primary [of db]
    by (auto simp: set_glob_backups_dom sv sf split: if_splits)
qed

lemma save_primary_after:
  assumes "CHR ''/'' \<in> set (db_file db)"
  shows "map_of (files (snd (save_managed_rules db stamp rs st))) (db_file db)
           = Some (Dict (fold rule_entry rs []))"
  by (simp add: save_managed_rules_def save_to_file_files [OF assms])

lemma card_take_generations:
  assumes "new_backup db stamp \<notin> set (glob_backups db st)"
  shows "card (set (take m (generations db stamp st)))
           = min m (card (set (glob_backups db st)) + 1)"
proof -
  have "length (generations db stamp st) = card (set (generations db stamp st))"
    by (simp add: distinct_card distinct_generations)
  also have "\<dots> = card (set (glob_backups db st)) + 1"
    using assms by (simp add: set_generations)
  finally have l: "length (generations db stamp st) = card (set (glob_backups db st)) + 1" .
  have "card (set (take m (generations db stamp st))) = length (take m (generations db stamp st))"
    by (simp add: distinct_card distinct_generations)
  with l show ?thesis by simp
qed

lemma save_all_count:
  assumes "CHR ''/'' \<in> set (db_file db)"
  shows "path_exists st (db_file db) \<Longrightarrow> distinct (map fst saves) \<Longrightarrow>
         card (set (glob_backups db st)) \<le> max_backups db \<Longrightarrow>
         \<forall>s \<in> set saves. CHR ''/'' \<notin> set (fst s) \<and> new_backup db (fst s) \<notin> set (glob_backups db st) \<Longrightarrow>
         card (set (glob_backups db (save_all db saves st)))
           = min (max_backups db) (card (set (glob_backups db st)) + length saves)"
proof (induction saves arbitrary: st)
  case Nil
  then show ?case by (simp add: save_all_def)
next
  case (Cons s saves)
  let ?st' = "snd (save_managed_rules db (fst s) (snd s) st)"
  from Cons.prems(1) obtain old where old: "map_of (files st) (db_file db) = Some old"
    by (auto simp: path_exists_def)
  from Cons.prems(4) have ns: "CHR ''/'' \<notin> set (fst s)"
    and fresh: "new_backup db (fst s) \<notin> set (glob_backups db st)" by simp_all
  note one = save_over_primary [OF old assms ns, of "snd s"]
  have ex': "path_exists ?st' (db_file db)" using one(3) by (simp add: path_exists_def)
  have g': "set (glob_backups db ?st') = set (take (max_backups db) (generations db (fst s) st))"
    by (rule one(5))
  have c': "card (set (glob_backups db ?st'))
              = min (max_backups db) (card (set (glob_backups db st)) + 1)"
    by (simp add: g' card_take_generations [OF fresh])
  have fresh': "\<forall>t \<in> set saves. CHR ''/'' \<notin> set (fst t) \<and>
                   new_backup db (fst t) \<notin> set (glob_backups db ?st')"
  proof
    fix t
    assume t: "t \<in> set saves"
    with Cons.prems(2) have "fst t \<noteq> fst s" by (auto simp: image_iff)
    then have "new_backup db (fst t) \<noteq> new_backup db (fst s)" by (simp add: new_backup_def)
    moreover from t Cons.prems(4) have "new_backup db (fst t) \<notin> set (glob_backups db st)"
      and "CHR ''/'' \<notin> set (fst t)" by simp_all
    ultimately show "CHR ''/'' \<notin> set (fst t) \<and> new_backup db (fst t) \<notin> set (glob_backups db ?st')"
      using set_generations [of db "fst s" st] by (auto simp: g' dest: in_set_takeD)
  qed
  from Cons.prems(2) have d: "distinct (map fst saves)" by simp
  from c' have le: "card (set (glob_backups db ?st')) \<le> max_backups db" by simp
  from Cons.IH [OF ex' d le fresh'] c'
  show ?case by (simp add: save_all_def)
qed

lemma glob_after_save:
  assumes "CHR ''/'' \<in> set (db_file db)" and "CHR ''/'' \<notin> set stamp"
  shows "set (glob_backups db (snd (save_managed_rules db stamp rs st)))
           \<subseteq> insert (new_backup db stamp) (set (glob_backups db st))"
proof (cases "path_exists st (db_file db)")
  case True
  then obtain old where "map_of (files st) (db_file db) = Some old"
    by (auto simp: path_exists_def)
  from save_over_primary(5) [OF this assms, of rs] set_generations [of db stamp st]
  show ?thesis by (auto dest: in_set_takeD)
next
  case False
  from save_without_primary(2) [OF False assms(1), of stamp rs] show ?thesis by auto
qed

lemma five_saves:
  assumes dir: "CHR ''/'' \<in> set (db_file db)" and m: "max_backups db = 3"
      and d: "distinct [t1, t2, t3, t4, t5]"
      and fresh: "\<forall>t \<in> set [t1, t2, t3, t4, t5].
                    CHR ''/'' \<notin> set t \<and> new_backup db t \<notin> fst ` set (files st)"
  shows "length (backup_files db
            (save_all db [(t1, r1), (t2, r2), (t3, r3), (t4, r4), (t5, r5)] st)) = 3"
    and "map_of (files (save_all db [(t1, r1), (t2, r2), (t3, r3), (t4, r4), (t5, r5)] st))
            (backup_file db) = Some (Dict (fold rule_entry r4 []))"
proof -
  let ?s1 = "snd (save_managed_rules db t1 r1 st)"
  let ?s2 = "snd (save_managed_rules db t2 r2 ?s1)"
  let ?s4 = "save_all db [(t3, r3), (t4, r4)] ?s2"
  from fresh have ns: "CHR ''/'' \<notin> set t1" "CHR ''/'' \<notin> set t2" "CHR ''/'' \<notin> set t3"
    "CHR ''/'' \<notin> set t4" "CHR ''/'' \<notin> set t5" by simp_all
  have g0: "new_backup db t \<notin> set (glob_backups db st)" if "t \<in> set [t1, t2, t3, t4, t5]" for t
    using fresh that by (auto simp: set_glob_backups)
  have neq: "new_backup db a \<noteq> new_backup db b" if "a \<noteq> b" for a b
    using that by (simp add: new_backup_def)
  have g1: "set (glob_backups db ?s1) \<subseteq> insert (new_backup db t1) (set (glob_backups db st))"
    using dir ns(1) by (rule glob_after_save)
  have p1: "map_of (files ?s1) (db_file db) = Some (Dict (fold rule_entry r1 []))"
    using dir by (rule save_primary_after)
  have f2: "new_backup db t2 \<notin> set (glob_backups db ?s1)"
    using g1 g0 [of t2] neq [of t2 t1] d by auto
  note two = save_over_primary [OF p1 dir ns(2), of r2]
  have c2: "card (set (glob_backups db ?s2)) = min 3 (card (set (glob_backups db ?s1)) + 1)"
    using two(5) card_take_generations [OF f2, of 3] m by simp
  have g2: "set (glob_backups db ?s2)
              \<subseteq> insert (new_backup db t2) (insert (new_backup db t1) (set (glob_backups db st)))"
    using glob_after_save [OF dir ns(2), of r2 ?s1] g1 by auto
  have ex2: "path_exists ?s2 (db_file db)" using two(3) by (simp add: path_exists_def)
  have fresh2: "\<forall>s \<in> set [(t3, r3), (t4, r4), (t5, r5)].
                  CHR ''/'' \<notin> set (fst s) \<and> new_backup db (fst s) \<notin> set (glob_backups db ?s2)"
    using g2 g0 [of t3] g0 [of t4] g0 [of t5] ns d
      neq [of t3 t1] neq [of t3 t2] neq [of t4 t1] neq [of t4 t2] neq [of t5 t1] neq [of t5 t2]
    by auto
  have d3: "distinct (map fst [(t3, r3), (t4, r4), (t5, r5)])" using d by simp
  have le: "card (set (glob_backups db ?s2)) \<le> max_backups db" using c2 m by simp
  have all: "save_all db [(t1, r1), (t2, r2), (t3, r3), (t4, r4), (t5, r5)] st
               = save_all db [(t3, r3), (t4, r4), (t5, r5)] ?s2"
    by (simp add: save_all_def)
  from save_all_count [OF dir ex2 d3 le fresh2] c2 m
  have "card (set (glob_backups db (save_all db [(t3, r3), (t4, r4), (t5, r5)] ?s2))) = 3"
    by simp
  then show "length (backup_files db
            (save_all db [(t1, r1), (t2, r2), (t3, r3), (t4, r4), (t5, r5)] st)) = 3"
    by (simp add: all backup_files_def distinct_card distinct_glob_backups)
  have s4: "?s4 = snd (save_managed_rules db t4 r4 (snd (save_managed_rules db t3 r3 ?s2)))"
    by (simp add: save_all_def)
  have p4: "map_of (files ?s4) (db_file db) = Some (Dict (fold rule_entry r4 []))"
    unfolding s4 using dir by (rule save_primary_after)
  have "save_all db [(t1, r1), (t2, r2), (t3, r3), (t4, r4), (t5, r5)] st
          = snd (save_managed_rules db t5 r5 ?s4)"
    by (simp add: save_all_def)
  with save_over_primary(4) [OF p4 dir ns(5), of r5]
  show "map_of (files (save_all db [(t1, r1), (t2, r2), (t3, r3), (t4, r4), (t5, r5)] st))
            (backup_file db) = Some (Dict (fold rule_entry r4 []))"
    by simp
qed

text \<open>
  Claim C7, as amended. For a database path with a directory part and without wildcard
  characters. A save over an existing primary file, at a timestamp, first copies the old
  primary to the backup named by the timestamp and to the fixed backup file, then removes
  the timestamped backups beyond the first \<^verbatim>\<open>max_backups\<close> in descending order of their
  names (the oldest by name go first), and only then writes the new content to the
  temporary file and moves it over the primary file; afterwards the primary file holds
  the new content, the fixed backup file the old content, and the timestamped backups are
  the \<^verbatim>\<open>max_backups\<close> greatest names. With a retention of 3, five consecutive saves at pairwise
  distinct timestamps that name no file yet leave exactly 3 timestamped backups, and the
  fixed backup file holds what the fourth save wrote.
\<close>

theorem save_backs_up_prunes_then_writes:
  assumes "CHR ''/'' \<in> set (db_file db)" and "\<not> has_magic (db_file db)"
  shows "(map_of (files st) (db_file db) = Some old \<and> CHR ''/'' \<notin> set stamp \<longrightarrow>
            fst (save_managed_rules db stamp rs st) = None \<and>
            journal (snd (save_managed_rules db stamp rs st))
              = journal st
                @ [Copy (db_file db) (new_backup db stamp), Copy (db_file db) (backup_file db)]
                @ map Remove (drop (max_backups db) (generations db stamp st))
                @ [Write (db_file db @ ''.tmp''), Move (db_file db @ ''.tmp'') (db_file db)] \<and>
            map_of (files (snd (save_managed_rules db stamp rs st))) (db_file db)
              = Some (Dict (fold rule_entry rs [])) \<and>
            map_of (files (snd (save_managed_rules db stamp rs st))) (backup_file db) = Some old \<and>
            backup_files db (snd (save_managed_rules db stamp rs st))
              = take (max_backups db) (generations db stamp st)) \<and>
         (max_backups db = 3 \<and> distinct [t1, t2, t3, t4, t5] \<and>
          (\<forall>t \<in> set [t1, t2, t3, t4, t5].
             CHR ''/'' \<notin> set t \<and> new_backup db t \<notin> fst ` set (files st)) \<longrightarrow>
            length (backup_files db
              (save_all db [(t1, r1), (t2, r2), (t3, r3), (t4, r4), (t5, r5)] st)) = 3 \<and>
            map_of (files (save_all db [(t1, r1), (t2, r2), (t3, r3), (t4, r4), (t5, r5)] st))
              (backup_file db) = Some (Dict (fold rule_entry r4 [])))"
proof (intro conjI impI)
  assume h: "map_of (files st) (db_file db) = Some old \<and> CHR ''/'' \<notin> set stamp"
  then have p: "map_of (files st) (db_file db) = Some old" and n: "CHR ''/'' \<notin> set stamp"
    by simp_all
  note one = save_over_primary [OF p assms(1) n, of rs]
  show "fst (save_managed_rules db stamp rs st) = None" by (rule one(1))
  show "journal (snd (save_managed_rules db stamp rs st))
              = journal st
                @ [Copy (db_file db) (new_backup db stamp), Copy (db_file db) (backup_file db)]
                @ map Remove (drop (max_backups db) (generations db stamp st))
                @ [Write (db_file db @ ''.tmp''), Move (db_file db @ ''.tmp'') (db_file db)]"
    by (rule one(2))
  show "map_of (files (snd (save_managed_rules db stamp rs st))) (db_file db)
              = Some (Dict (fold rule_entry rs []))" by (rule one(3))
  show "map_of (files (snd (save_managed_rules db stamp rs st))) (backup_file db) = Some old"
    by (rule one(4))
  show "backup_files db (snd (save_managed_rules db stamp rs st))
              = take (max_backups db) (generations db stamp st)" by (rule one(6))
next
  assume h: "max_backups db = 3 \<and> distinct [t1, t2, t3, t4, t5] \<and>
          (\<forall>t \<in> set [t1, t2, t3, t4, t5].
             CHR ''/'' \<notin> set t \<and> new_backup db t \<notin> fst ` set (files st))"
  then have m: "max_backups db = 3" and d: "distinct [t1, t2, t3, t4, t5]"
    and f: "\<forall>t \<in> set [t1, t2, t3, t4, t5].
             CHR ''/'' \<notin> set t \<and> new_backup db t \<notin> fst ` set (files st)"
    by blast+
  from five_saves(1) [OF assms(1) m d f]
  show "length (backup_files db
              (save_all db [(t1, r1), (t2, r2), (t3, r3), (t4, r4), (t5, r5)] st)) = 3" .
next
  assume h: "max_backups db = 3 \<and> distinct [t1, t2, t3, t4, t5] \<and>
          (\<forall>t \<in> set [t1, t2, t3, t4, t5].
             CHR ''/'' \<notin> set t \<and> new_backup db t \<notin> fst ` set (files st))"
  then have m: "max_backups db = 3" and d: "distinct [t1, t2, t3, t4, t5]"
    and f: "\<forall>t \<in> set [t1, t2, t3, t4, t5].
             CHR ''/'' \<notin> set t \<and> new_backup db t \<notin> fst ` set (files st)"
    by blast+
  from five_saves(2) [OF assms(1) m d f]
  show "map_of (files (save_all db [(t1, r1), (t2, r2), (t3, r3), (t4, r4), (t5, r5)] st))
              (backup_file db) = Some (Dict (fold rule_entry r4 []))" .
qed

text \<open>
  Five saves into a new store, one second apart, with a retention of 3: the three backups
  with the greatest timestamps remain, and the fixed backup file holds what the fourth
  save wrote.
\<close>

theorem save_backs_up_prunes_then_writes_witness:
  "length (backup_files \<lparr>db_file = ''d/m'', max_backups = 3\<rparr>
     (save_all \<lparr>db_file = ''d/m'', max_backups = 3\<rparr>
       [(''20240101_000001'', [(''a.example'', \<lparr>domain = ''a.example'', answer = ''10.0.0.1'', enabled = True\<rparr>)]),
        (''20240101_000002'', [(''a.example'', \<lparr>domain = ''a.example'', answer = ''10.0.0.2'', enabled = True\<rparr>)]),
        (''20240101_000003'', [(''a.example'', \<lparr>domain = ''a.example'', answer = ''10.0.0.3'', enabled = True\<rparr>)]),
        (''20240101_000004'', [(''a.example'', \<lparr>domain = ''a.example'', answer = ''10.0.0.4'', enabled = True\<rparr>)]),
        (''20240101_000005'', [(''a.example'', \<lparr>domain = ''a.example'', answer = ''10.0.0.5'', enabled = True\<rparr>)])]
       \<lparr>files = [], journal = []\<rparr>)) = 3 \<and>
   map_of (files (save_all \<lparr>db_file = ''d/m'', max_backups = 3\<rparr>
       [(''20240101_000001'', [(''a.example'', \<lparr>domain = ''a.example'', answer = ''10.0.0.1'', enabled = True\<rparr>)]),
        (''20240101_000002'', [(''a.example'', \<lparr>domain = ''a.example'', answer = ''10.0.0.2'', enabled = True\<rparr>)]),
        (''20240101_000003'', [(''a.example'', \<lparr>domain = ''a.example'', answer = ''10.0.0.3'', enabled = True\<rparr>)]),
        (''20240101_000004'', [(''a.example'', \<lparr>domain = ''a.example'', answer = ''10.0.0.4'', enabled = True\<rparr>)]),
        (''20240101_000005'', [(''a.example'', \<lparr>domain = ''a.example'', answer = ''10.0.0.5'', enabled = True\<rparr>)])]
       \<lparr>files = [], journal = []\<rparr>))
     (backup_file \<lparr>db_file = ''d/m'', max_backups = 3\<rparr>)
   = Some (Dict (fold rule_entry [(''a.example'', \<lparr>domain = ''a.example'', answer = ''10.0.0.4'', enabled = True\<rparr>)] [])) \<and>
   backup_files \<lparr>db_file = ''d/m'', max_backups = 3\<rparr>
     (save_all \<lparr>db_file = ''d/m'', max_backups = 3\<rparr>
       [(''20240101_000001'', [(''a.example'', \<lparr>domain = ''a.example'', answer = ''10.0.0.1'', enabled = True\<rparr>)]),
        (''20240101_000002'', [(''a.example'', \<lparr>domain = ''a.example'', answer = ''10.0.0.2'', enabled = True\<rparr>)]),
        (''20240101_000003'', [(''a.example'', \<lparr>domain = ''a.example'', answer = ''10.0.0.3'', enabled = True\<rparr>)]),
        (''20240101_000004'', [(''a.example'', \<lparr>domain = ''a.example'', answer = ''10.0.0.4'', enabled = True\<rparr>)]),
        (''20240101_000005'', [(''a.example'', \<lparr>domain = ''a.example'', answer = ''10.0.0.5'', enabled = True\<rparr>)])]
       \<lparr>files = [], journal = []\<rparr>)
   = [''d/m.backup.20240101_000005'', ''d/m.backup.20240101_000004'',
      ''d/m.backup.20240101_000003'']"
  (is "?A \<and> ?B \<and> ?C")
proof -
  let ?db = "\<lparr>db_file = ''d/m'', max_backups = 3\<rparr>"
  have h1: "CHR ''/'' \<in> set (db_file ?db)" by simp
  have h2: "\<not> has_magic (db_file ?db)" by code_simp
  have h3: "max_backups ?db = 3 \<and>
      distinct [''20240101_000001'', ''20240101_000002'', ''20240101_000003'',
                ''20240101_000004'', ''20240101_000005''] \<and>
      (\<forall>t \<in> set [''20240101_000001'', ''20240101_000002'', ''20240101_000003'',
                   ''20240101_000004'', ''20240101_000005''].
         CHR ''/'' \<notin> set t \<and> new_backup ?db t \<notin> fst ` set (files \<lparr>files = [], journal = []\<rparr>))"
    by simp
  from save_backs_up_prunes_then_writes [OF h1 h2, THEN conjunct2, THEN mp, OF h3]
  have ab: "?A \<and> ?B" .
  have c: ?C by code_simp
  from ab c show ?thesis by blast
qed

text \<open>
  Two saves that the claim, as it is written, gets wrong. Over a primary file and three
  backups, with a retention of 3, the oldest backup is removed before the new content is
  written, not afterwards. And five saves within the same second share the name of their
  backup: one timestamped backup remains, not three.
\<close>

theorem pruning_precedes_write_counterexample:
  "journal (snd (save_managed_rules \<lparr>db_file = ''d/m'', max_backups = 3\<rparr> ''20240101_000004''
     [(''a.example'', \<lparr>domain = ''a.example'', answer = ''10.0.0.4'', enabled = True\<rparr>)]
     \<lparr>files = [(''d/m'', Dict [(''a.example'', RuleData (Some ''a.example'') (Some
     ''10.0.0.3'') (Some True))]), (''d/m.backup'', Dict []), (''d/m.backup.20240101_000001'',
     Dict []), (''d/m.backup.20240101_000002'', Dict []), (''d/m.backup.20240101_000003'', Dict
     [])], journal = []\<rparr>))
   = [Copy ''d/m'' ''d/m.backup.20240101_000004'', Copy ''d/m'' ''d/m.backup'',
      Remove ''d/m.backup.20240101_000001'',
      Write ''d/m.tmp'', Move ''d/m.tmp'' ''d/m''] \<and>
   backup_files \<lparr>db_file = ''d/m'', max_backups = 3\<rparr>
     (save_all \<lparr>db_file = ''d/m'', max_backups = 3\<rparr>
       [(''20240101_000001'', [(''a.example'', \<lparr>domain = ''a.example'', answer = ''10.0.0.1'', enabled = True\<rparr>)]),
        (''20240101_000001'', [(''a.example'', \<lparr>domain = ''a.example'', answer = ''10.0.0.2'', enabled = True\<rparr>)]),
        (''20240101_000001'', [(''a.example'', \<lparr>domain = ''a.example'', answer = ''10.0.0.3'', enabled = True\<rparr>)]),
        (''20240101_000001'', [(''a.example'', \<lparr>domain = ''a.example'', answer = ''10.0.0.4'', enabled = True\<rparr>)]),
        (''20240101_000001'', [(''a.example'', \<lparr>domain = ''a.example'', answer = ''10.0.0.5'', enabled = True\<rparr>)])]
       \<lparr>files = [], journal = []\<rparr>)
   = [''d/m.backup.20240101_000001'']"
  by code_simp

end
